theory Spec2Isabelle
  imports Main "HOL-Library.Sublist"
begin

section \<open>Strings as the scripts use them\<close>

text \<open>
  A JavaScript string is modelled as a \<^typ>\<open>string\<close>: a list of characters, one list
  element per code unit. The scripts only search, cut and concatenate strings, so nothing
  depends on which alphabet the elements are drawn from.

  \<^verbatim>\<open>html.includes(x)\<close> holds when \<open>x\<close> occurs in \<open>html\<close> as a contiguous run; the
  empty string occurs everywhere.
\<close>

definition str_includes :: "string \<Rightarrow> string \<Rightarrow> bool" where
  "str_includes s x = sublist x s"

text \<open>
  \<^verbatim>\<open>parts.join(sep)\<close>: the parts with the separator between neighbours; the empty
  array joins to the empty string.
\<close>

fun join_str :: "string \<Rightarrow> string list \<Rightarrow> string" where
  "join_str sep [] = []"
| "join_str sep [x] = x"
| "join_str sep (x # y # ys) = x @ sep @ join_str sep (y # ys)"

text \<open>
  \<^verbatim>\<open>s.split(sep)\<close> for a string separator scans left to right; where the separator
  matches, the piece collected so far is emitted and the scan resumes after the match, so
  matches never overlap. \<open>cur\<close> holds the current piece, reversed. With the empty
  separator JavaScript returns the single code units.
\<close>

function split_from :: "string \<Rightarrow> string \<Rightarrow> string \<Rightarrow> string list" where
  "split_from sep cur [] = [rev cur]"
| "split_from sep cur (c # cs) =
     (if sep \<noteq> [] \<and> prefix sep (c # cs)
      then rev cur # split_from sep [] (drop (length sep) (c # cs))
      else split_from sep (c # cur) cs)"
  by pat_completeness auto
termination
  by (relation "measure (\<lambda>(sep, cur, s). length s)") auto

definition split_str :: "string \<Rightarrow> string \<Rightarrow> string list" where
  "split_str s sep = (if sep = [] then map (\<lambda>c. [c]) s else split_from sep [] s)"

text \<open>The idiom \<^verbatim>\<open>s.split(pat).join(v)\<close> of \<^verbatim>\<open>render\<close>.\<close>

definition replace_all :: "string \<Rightarrow> string \<Rightarrow> string \<Rightarrow> string" where
  "replace_all pat v s = join_str v (split_str s pat)"

section \<open>The renderer's placeholder substitution (build.js)\<close>

text \<open>
  \<^verbatim>\<open>
  function render(template, vars) {
    let result = template;
    for (const [key, value] of Object.entries(vars)) {
      result = result.split(`{{${key}}}`).join(value);
    }
    return result;
  }
  \<close>
  \<open>vars\<close> is the list \<^verbatim>\<open>Object.entries(vars)\<close>: the entries in the order the object
  literal lists them (every key the script uses is a non-numeric name).
\<close>

definition placeholder :: "string \<Rightarrow> string" where
  "placeholder key = ''{{'' @ key @ ''}}''"

definition render :: "string \<Rightarrow> (string \<times> string) list \<Rightarrow> string" where
  "render template vars =
     foldl (\<lambda>result (key, value). join_str value (split_str result (placeholder key)))
       template vars"

subsection \<open>Templates as the template contract describes them\<close>

text \<open>
  The template files are data of the site, not code. The contract says a template is
  text with zero or more named placeholders; \<open>flatten\<close> gives the text of such a
  template, and \<open>subst\<close> is the literal, one-pass replacement the contract asks for:
  a recognised name becomes its value, anything else stays as written.
\<close>

datatype token = Lit string | Ph string

fun token_text :: "token \<Rightarrow> string" where
  "token_text (Lit s) = s"
| "token_text (Ph n) = placeholder n"

definition flatten :: "token list \<Rightarrow> string" where
  "flatten toks = concat (map token_text toks)"

fun subst :: "(string \<times> string) list \<Rightarrow> token \<Rightarrow> string" where
  "subst vars (Lit s) = s"
| "subst vars (Ph n) = (case map_of vars n of Some v \<Rightarrow> v | None \<Rightarrow> placeholder n)"

text \<open>
  Text is \<open>brace_safe\<close> when it has no two opening braces in a row and does not end in
  an opening brace: it neither contains nor can complete the opening of a placeholder.
  A name is \<open>name_ok\<close> when it has no brace at all.
\<close>

fun brace_safe :: "string \<Rightarrow> bool" where
  "brace_safe [] = True"
| "brace_safe [c] = (c \<noteq> CHR ''{'')"
| "brace_safe (c # d # cs) = ((c \<noteq> CHR ''{'' \<or> d \<noteq> CHR ''{'') \<and> brace_safe (d # cs))"

definition name_ok :: "string \<Rightarrow> bool" where
  "name_ok n = (CHR ''{'' \<notin> set n \<and> CHR ''}'' \<notin> set n)"

fun token_ok :: "token \<Rightarrow> bool" where
  "token_ok (Lit s) = brace_safe s"
| "token_ok (Ph n) = name_ok n"

definition vars_ok :: "(string \<times> string) list \<Rightarrow> bool" where
  "vars_ok vars = list_all (\<lambda>(k, v). name_ok k \<and> brace_safe v) vars"

text \<open>
  One round of \<^verbatim>\<open>render\<close>'s loop, seen on the tokens: the placeholders named \<open>k\<close>
  become the literal text \<open>v\<close>.
\<close>

fun step_token :: "string \<Rightarrow> string \<Rightarrow> token \<Rightarrow> token" where
  "step_token k v (Lit s) = Lit s"
| "step_token k v (Ph n) = (if n = k then Lit v else Ph n)"

section \<open>The Store and the templates\<close>

text \<open>
  The two JSON documents of the Store, as \<^verbatim>\<open>JSON.parse\<close> hands them to the scripts.
  \<open>post_id\<close> is the legacy numeric identifier (a non-negative integer); \<open>prev_ref\<close>
  and \<open>next_ref\<close> are the fields \<^verbatim>\<open>prev\<close> and \<^verbatim>\<open>next\<close>, \<open>None\<close> for \<^verbatim>\<open>null\<close>.
\<close>

record link =
  url :: string
  label :: string

record nav_ref =
  ref_name :: string
  ref_slug :: string

record person =
  slug :: string
  post_id :: nat
  name :: string
  hero_image :: string
  thumbnail :: string
  years_in_tech :: string
  role :: string
  location :: string
  interview_date :: string
  abstract :: string
  personal_links :: "link list"
  interview_content :: string
  prev_ref :: "nav_ref option"
  next_ref :: "nav_ref option"
  title :: string

record category =
  cat_slug :: string
  display_name :: string
  post_ids :: "nat list"

text \<open>
  The template files read by \<^verbatim>\<open>readTemplate\<close>: the four partials and the five page
  templates. Their text is an input of the build.
\<close>

record templates =
  partial_head :: string
  partial_nav :: string
  partial_footer :: string
  partial_scripts :: string
  personTemplate :: string
  homepageTemplate :: string
  categoryTemplate :: string
  aboutTemplate :: string
  submitTemplate :: string

subsection \<open>Characters and numbers inside template literals\<close>

definition dq :: char where
  "dq = CHR 0x22"

definition sq :: char where
  "sq = CHR 0x27"

definition nl :: char where
  "nl = CHR 0x0A"

definition quoted :: "string \<Rightarrow> string" where
  "quoted s = dq # s @ [dq]"

definition squoted :: "string \<Rightarrow> string" where
  "squoted s = sq # s @ [sq]"

text \<open>
  A number of the Store is a JavaScript number, a double; \<open>post_id\<close> and the entries
  of \<open>post_ids\<close> are the non-negative integers among them, each taken as the integer it
  is. An integer of at most 53 binary digits is a double; for a longer one \<open>toDouble\<close>
  gives the double nearest to it (ties go to the even mantissa). The doubles end below
  \<open>2\<^sup>1\<^sup>0\<^sup>2\<^sup>4\<close>: what rounds to that or more is \<^verbatim>\<open>Infinity\<close>, for which \<open>2\<^sup>1\<^sup>0\<^sup>2\<^sup>4\<close> itself
  stands here.
\<close>

fun bit_length :: "nat \<Rightarrow> nat" where
  "bit_length n = (if n = 0 then 0 else Suc (bit_length (n div 2)))"

definition infinity :: nat where
  "infinity = 2 ^ 1024"

definition toDouble :: "nat \<Rightarrow> nat" where
  "toDouble n =
     (if bit_length n \<le> 53 then n
      else let e = bit_length n - 53;
               q = n div 2 ^ e;
               rest = n mod 2 ^ e;
               rounded = (if 2 ^ e < 2 * rest \<or> (2 * rest = 2 ^ e \<and> odd q) then q + 1 else q)
                           * 2 ^ e
           in if 1024 < bit_length rounded then infinity else rounded)"

text \<open>
  \<^verbatim>\<open>${person.post_id}\<close>: the number as JavaScript prints it. Below \<open>2\<^sup>5\<^sup>3\<close>, for an
  integer of at most 53 binary digits, these are the decimal digits of the integer.
  From there on JavaScript prints the shortest run
  of digits that, filled up with zeros, still reads back as the same double (of two
  such runs the one nearer to the number, of two equally near the even one), and from
  \<open>10\<^sup>2\<^sup>1\<close> on it prints that run in exponent form.
\<close>

definition digit_char :: "nat \<Rightarrow> char" where
  "digit_char d = ''0123456789'' ! d"

fun decimal :: "nat \<Rightarrow> string" where
  "decimal n = (if n < 10 then [digit_char n]
                else decimal (n div 10) @ [digit_char (n mod 10)])"

text \<open>
  The candidates with \<open>k\<close> digits for a number \<open>x\<close> of \<open>d\<close> digits: \<open>x\<close> cut
  down to its first \<open>k\<close> digits, and the next number of \<open>k\<close> digits above it; a
  candidate counts when it reads back as \<open>x\<close>.
\<close>

definition digit_candidates :: "nat \<Rightarrow> nat \<Rightarrow> nat list" where
  "digit_candidates x k =
     (let u = 10 ^ (length (decimal x) - k);
          lo = (x div u) * u
      in filter (\<lambda>c. toDouble c = x) [lo, lo + u])"

definition nearest :: "nat \<Rightarrow> nat \<Rightarrow> nat list \<Rightarrow> nat" where
  "nearest x k cs =
     (case cs of
        [] \<Rightarrow> x
      | [c] \<Rightarrow> c
      | lo # hi # _ \<Rightarrow>
          if x - lo < hi - x then lo
          else if hi - x < x - lo then hi
          else if even (lo div 10 ^ (length (decimal x) - k)) then lo else hi)"

definition shortest_digits :: "nat \<Rightarrow> nat" where
  "shortest_digits x =
     (case List.find (\<lambda>k. digit_candidates x k \<noteq> []) [1 ..< length (decimal x)] of
        None \<Rightarrow> x
      | Some k \<Rightarrow> nearest x k (digit_candidates x k))"

definition exponent_form :: "string \<Rightarrow> string" where
  "exponent_form ds =
     (let significant = rev (dropWhile (\<lambda>c. c = CHR ''0'') (rev ds))
      in (case significant of
            [] \<Rightarrow> ''0''
          | [c] \<Rightarrow> [c]
          | c # cs \<Rightarrow> c # CHR ''.'' # cs)
         @ ''e+'' @ decimal (length ds - 1))"

definition show_nat :: "nat \<Rightarrow> string" where
  "show_nat n =
     (if bit_length n \<le> 53 then decimal n
      else if 1024 < bit_length n then ''Infinity''
      else let ds = decimal (shortest_digits n)
           in if length ds \<le> 21 then ds else exponent_form ds)"

section \<open>The renderer (build.js)\<close>

subsection \<open>The lookup by post id\<close>

text \<open>
  \<^verbatim>\<open>
  const peopleByPostId = {};
  people.forEach(p => { peopleByPostId[p.post_id] = p; });
  \<close>
\<close>

definition peopleByPostId :: "person list \<Rightarrow> (nat \<rightharpoonup> person)" where
  "peopleByPostId people = foldl (\<lambda>m p. m(post_id p \<mapsto> p)) Map.empty people"

subsection \<open>Head and navigation\<close>

definition buildHead :: "templates \<Rightarrow> string \<Rightarrow> string" where
  "buildHead T headExtra = render (partial_head T) [(''HEAD_EXTRA'', headExtra)]"

definition buildNav :: "templates \<Rightarrow> bool \<Rightarrow> bool \<Rightarrow> string" where
  "buildNav T aboutActive submitActive =
     render (partial_nav T)
       [(''ABOUT_ACTIVE'', if aboutActive then ''active'' else ''''),
        (''SUBMIT_ACTIVE'', if submitActive then ''active'' else '''')]"

subsection \<open>Person pages\<close>

definition relLink :: "string \<Rightarrow> nav_ref \<Rightarrow> string" where
  "relLink rel r =
     [nl] @ ''<link rel='' @ squoted rel @ '' title='' @ squoted (ref_name r)
       @ '' href='' @ squoted (''/'' @ ref_slug r @ ''/'') @ '' />''"

definition personHeadExtra :: "person \<Rightarrow> string" where
  "personHeadExtra p =
     ''<link rel='' @ quoted ''canonical'' @ '' href='' @ quoted (''/'' @ slug p @ ''/'') @ '' />''
       @ (case prev_ref p of None \<Rightarrow> [] | Some r \<Rightarrow> relLink ''prev'' r)
       @ (case next_ref p of None \<Rightarrow> [] | Some r \<Rightarrow> relLink ''next'' r)"

definition linkItem :: "link \<Rightarrow> string" where
  "linkItem l = ''        <li><a href='' @ quoted (url l) @ ''>'' @ label l @ ''</a></li>''"

definition linksHtml :: "person \<Rightarrow> string" where
  "linksHtml p = join_str [nl] (map linkItem (personal_links p))"

definition personVars :: "templates \<Rightarrow> person \<Rightarrow> (string \<times> string) list" where
  "personVars T p =
     [(''HEAD'', buildHead T (personHeadExtra p)),
      (''NAV'', buildNav T False False),
      (''FOOTER'', partial_footer T),
      (''SCRIPTS'', partial_scripts T),
      (''NAME'', name p),
      (''HERO_IMAGE'', hero_image p),
      (''THUMBNAIL'', thumbnail p),
      (''YEARS_IN_TECH'', years_in_tech p),
      (''ROLE'', role p),
      (''LOCATION'', location p),
      (''INTERVIEW_DATE'', interview_date p),
      (''ABSTRACT'', abstract p),
      (''PERSONAL_LINKS'', linksHtml p),
      (''INTERVIEW_CONTENT'', interview_content p)]"

definition personPage :: "templates \<Rightarrow> person \<Rightarrow> string" where
  "personPage T p = render (personTemplate T) (personVars T p)"

subsection \<open>Homepage\<close>

definition categoryListItem :: "category \<Rightarrow> string" where
  "categoryListItem cat =
     ''              <li id='' @ quoted (cat_slug cat) @ '' class='' @ quoted ''cat-item''
       @ ''><a href='' @ quoted (''/category/'' @ cat_slug cat @ ''/'') @ ''>''
       @ display_name cat @ ''</a></li>''"

definition categoryListHtml :: "category list \<Rightarrow> string" where
  "categoryListHtml categories = join_str [nl] (map categoryListItem categories)"

definition card_marker :: "nat \<Rightarrow> string" where
  "card_marker pid = ''id='' @ quoted (''post-'' @ show_nat pid)"

definition homepageCard :: "person \<Rightarrow> string" where
  "homepageCard p =
     ''  <div '' @ card_marker (post_id p) @ '' class=''
       @ quoted ''techie-gallery col-xs-6 col-sm-4 col-md-3'' @ ''>'' @ [nl]
     @ ''    <a class='' @ quoted ''techie-thumbnail'' @ '' href=''
       @ quoted (''/'' @ slug p @ ''/'') @ ''>'' @ [nl]
     @ ''      <img src='' @ quoted (''/d1lhy388c2xgxf/thumbnails/'' @ thumbnail p)
       @ '' width='' @ quoted ''280px'' @ '' height='' @ quoted ''390px'' @ ''>'' @ [nl]
     @ ''      <div class='' @ quoted ''techie-info'' @ ''>'' @ [nl]
     @ ''        <p class='' @ quoted ''name'' @ ''>'' @ name p @ ''</p>'' @ [nl]
     @ ''        <p class='' @ quoted ''title'' @ ''>'' @ title p @ ''&nbsp</p>'' @ [nl]
     @ ''      </div>'' @ [nl]
     @ ''    </a>'' @ [nl]
     @ ''  </div>''"

definition homepageCardsHtml :: "person list \<Rightarrow> string" where
  "homepageCardsHtml people =
     join_str ([nl, nl] @ ''  <!-- end loop -->'' @ [nl] @ ''  '') (map homepageCard people)"

definition homepageVars :: "templates \<Rightarrow> person list \<Rightarrow> category list \<Rightarrow> (string \<times> string) list" where
  "homepageVars T people categories =
     [(''HEAD'', buildHead T ''''),
      (''NAV'', buildNav T False False),
      (''FOOTER'', partial_footer T),
      (''SCRIPTS'', partial_scripts T),
      (''CATEGORY_LIST'', categoryListHtml categories),
      (''GALLERY_CARDS'', homepageCardsHtml people)]"

definition homepageHtml :: "templates \<Rightarrow> person list \<Rightarrow> category list \<Rightarrow> string" where
  "homepageHtml T people categories =
     render (homepageTemplate T) (homepageVars T people categories)"

subsection \<open>Category pages\<close>

definition categoryInlineItem :: "category \<Rightarrow> string" where
  "categoryInlineItem cat =
     ''<li id='' @ cat_slug cat @ '' class='' @ squoted ''cat-item''
       @ ''><a href='' @ squoted (''/category/'' @ cat_slug cat @ ''/'') @ ''>''
       @ display_name cat @ ''</a></li>''"

definition categoryListInline :: "category list \<Rightarrow> string" where
  "categoryListInline categories = join_str [] (map categoryInlineItem categories)"

text \<open>
  \<^verbatim>\<open>cat.post_ids.map(id => peopleByPostId[id]).filter(Boolean)\<close>: a missing key reads as
  \<^verbatim>\<open>undefined\<close>, which the filter drops; a record is an object, which it keeps.
\<close>

definition catPeople :: "person list \<Rightarrow> category \<Rightarrow> person list" where
  "catPeople people cat =
     map the (filter (\<lambda>r. r \<noteq> None) (map (peopleByPostId people) (post_ids cat)))"

definition categoryCard :: "person \<Rightarrow> string" where
  "categoryCard p =
     ''  <div '' @ card_marker (post_id p) @ '' class=''
       @ quoted ''techie-gallery col-lg-3 col-md-4 col-sm-6'' @ ''>'' @ [nl]
     @ ''    <a class='' @ quoted ''techie-thumbnail'' @ '' href=''
       @ quoted (''/'' @ slug p @ ''/'') @ ''>'' @ [nl]
     @ ''      <img src='' @ quoted (''/d1lhy388c2xgxf/thumbnails/'' @ thumbnail p)
       @ '' width='' @ quoted ''280px'' @ '' height='' @ quoted ''390px'' @ ''>'' @ [nl]
     @ ''      <p class='' @ quoted ''name'' @ ''>'' @ name p @ ''</p>'' @ [nl]
     @ ''      <p class='' @ quoted ''title'' @ ''>'' @ title p @ ''&nbsp;</p>'' @ [nl]
     @ ''    </a>'' @ [nl]
     @ ''  </div>''"

definition cardsHtml :: "person list \<Rightarrow> category \<Rightarrow> string" where
  "cardsHtml people cat =
     join_str ([nl, nl] @ ''<!-- end loop -->'' @ [nl]) (map categoryCard (catPeople people cat))"

definition categoryVars :: "templates \<Rightarrow> person list \<Rightarrow> category list \<Rightarrow> category \<Rightarrow> (string \<times> string) list" where
  "categoryVars T people categories cat =
     [(''HEAD'', buildHead T ''''),
      (''NAV'', buildNav T False False),
      (''FOOTER'', partial_footer T),
      (''SCRIPTS'', partial_scripts T),
      (''CATEGORY_LIST_INLINE'', categoryListInline categories),
      (''GALLERY_CARDS'', cardsHtml people cat)]"

definition categoryHtml :: "templates \<Rightarrow> person list \<Rightarrow> category list \<Rightarrow> category \<Rightarrow> string" where
  "categoryHtml T people categories cat =
     render (categoryTemplate T) (categoryVars T people categories cat)"

subsection \<open>Fixed pages\<close>

definition aboutHtml :: "templates \<Rightarrow> string" where
  "aboutHtml T =
     render (aboutTemplate T)
       [(''HEAD'', buildHead T (''<link rel='' @ quoted ''canonical'' @ '' href=''
                                  @ quoted ''/about/'' @ '' />'')),
        (''NAV'', buildNav T True False),
        (''FOOTER'', partial_footer T),
        (''SCRIPTS'', partial_scripts T)]"

definition submitHtml :: "templates \<Rightarrow> string" where
  "submitHtml T =
     render (submitTemplate T)
       [(''HEAD'', buildHead T (''<link rel='' @ quoted ''canonical'' @ '' href=''
                                  @ quoted ''/submit/'' @ '' />'' @ [nl]
                                @ ''<link rel='' @ squoted ''stylesheet'' @ '' href=''
                                  @ squoted ''/assets/css/wpgform.css'' @ '' type=''
                                  @ squoted ''text/css'' @ '' media='' @ squoted ''all''
                                  @ '' />'')),
        (''NAV'', buildNav T False True),
        (''FOOTER'', partial_footer T),
        (''SCRIPTS'', partial_scripts T)]"

subsection \<open>The output tree\<close>

text \<open>
  What the build writes is a finite list of files: a path, relative to the output root
  and cut into its segments, with the file's text; no path is listed twice. A slug is
  taken as one segment of its page's path, which is what \<^verbatim>\<open>path.join\<close> makes of a slug
  that is a plain directory name. The directories that \<^verbatim>\<open>mkdirp\<close> makes are the
  directories above the files written next, so they are read off the files
  (\<open>isDirectory\<close>); the directories without files that \<^verbatim>\<open>cpSync\<close> copies belong to
  the surroundings of the tree (see the verifier).
\<close>

type_synonym path = "string list"

type_synonym tree = "(path \<times> string) list"

definition readFile :: "tree \<Rightarrow> path \<Rightarrow> string option" where
  "readFile out p = map_of out p"

definition isDirectory :: "tree \<Rightarrow> path \<Rightarrow> bool" where
  "isDirectory out p = list_ex (\<lambda>e. prefix p (fst e) \<and> p \<noteq> fst e) out"

definition writeFileSync :: "path \<Rightarrow> string \<Rightarrow> tree \<Rightarrow> tree" where
  "writeFileSync p c out = (p, c) # filter (\<lambda>e. fst e \<noteq> p) out"

definition copyDirSync :: "tree \<Rightarrow> path \<Rightarrow> tree \<Rightarrow> tree" where
  "copyDirSync src dest out = foldl (\<lambda>t (p, c). writeFileSync (dest @ p) c t) out src"

text \<open>\<^verbatim>\<open>fs.rmSync(OUTPUT, { recursive: true, force: true })\<close>: nothing is left.\<close>

definition rmSync :: "tree \<Rightarrow> tree" where
  "rmSync out = []"

subsection \<open>The whole build\<close>

text \<open>
  Everything the build reads: the Store, the templates, the two asset directories
  (paths relative to each directory) and the favicon. The script reads the Store and
  the templates before it touches the output; a run in which one of its inputs is
  missing or unreadable stops with an exception and is not a build in the sense of this
  model.
\<close>

record site =
  site_people :: "person list"
  site_categories :: "category list"
  site_templates :: templates
  site_assets :: tree
  site_cdn :: tree
  site_favicon :: string

definition personPath :: "person \<Rightarrow> path" where
  "personPath p = [slug p, ''index.html'']"

definition categoryPath :: "category \<Rightarrow> path" where
  "categoryPath cat = [''category'', cat_slug cat, ''index.html'']"

definition writePersonPages :: "templates \<Rightarrow> person list \<Rightarrow> tree \<Rightarrow> tree" where
  "writePersonPages T people out =
     foldl (\<lambda>t p. writeFileSync (personPath p) (personPage T p) t) out people"

definition writeCategoryPages :: "templates \<Rightarrow> person list \<Rightarrow> category list \<Rightarrow> tree \<Rightarrow> tree" where
  "writeCategoryPages T people categories out =
     foldl (\<lambda>t cat. writeFileSync (categoryPath cat) (categoryHtml T people categories cat) t)
       out categories"

definition robotsTxt :: string where
  "robotsTxt = ''User-agent: *'' @ [nl] @ ''Allow: /'' @ [nl]"

text \<open>
  The script from top to bottom; \<open>old\<close> is the output directory as the previous run
  left it.
\<close>

definition build :: "site \<Rightarrow> tree \<Rightarrow> tree" where
  "build s old =
     (let T = site_templates s;
          out0 = rmSync old;
          out1 = copyDirSync (site_assets s) [''assets''] out0;
          out2 = copyDirSync (site_cdn s) [''d1lhy388c2xgxf''] out1;
          out3 = writeFileSync [''favicon.ico''] (site_favicon s) out2;
          out4 = writeFileSync [''robots.txt''] robotsTxt out3;
          out5 = writePersonPages T (site_people s) out4;
          out6 = writeFileSync [''index.html'']
                   (homepageHtml T (site_people s) (site_categories s)) out5;
          out7 = writeCategoryPages T (site_people s) (site_categories s) out6;
          out8 = writeFileSync [''about'', ''index.html''] (aboutHtml T) out7;
          out9 = writeFileSync [''submit'', ''index.html''] (submitHtml T) out8
      in out9)"

subsection \<open>Stores the output tree is faithful for\<close>

text \<open>
  The Store's invariant is that slugs are unique. The page paths above are the paths
  \<^verbatim>\<open>path.join\<close> computes, and the file system accepts every write of the build, when in
  addition each slug is a plain directory name and none is a name the site itself uses
  at the root of the output.
\<close>

definition reserved_names :: "string list" where
  "reserved_names = [''index.html'', ''about'', ''submit'', ''favicon.ico'', ''robots.txt'',
                     ''assets'', ''d1lhy388c2xgxf'', ''category'']"

definition page_slug_ok :: "string \<Rightarrow> bool" where
  "page_slug_ok sl =
     (sl \<noteq> [] \<and> CHR ''/'' \<notin> set sl \<and> sl \<noteq> ''.'' \<and> sl \<noteq> ''..'' \<and> sl \<notin> set reserved_names)"

definition store_ok :: "site \<Rightarrow> bool" where
  "store_ok s =
     (distinct (map slug (site_people s)) \<and> distinct (map cat_slug (site_categories s))
      \<and> list_all page_slug_ok (map slug (site_people s))
      \<and> list_all page_slug_ok (map cat_slug (site_categories s)))"

section \<open>The verifier (verify.js)\<close>

text \<open>
  \<^verbatim>\<open>
  let errors = 0;
  let warnings = 0;
  function check(condition, msg) { if (!condition) { console.error(...); errors++; } }
  function warn(msg) { console.warn(...); warnings++; }
  \<close>
  The two counters are threaded through the passes as a record.
\<close>

record report =
  errors :: nat
  warnings :: nat

definition check :: "bool \<Rightarrow> report \<Rightarrow> report" where
  "check condition r = (if \<not> condition then r\<lparr>errors := errors r + 1\<rparr> else r)"

definition warn :: "report \<Rightarrow> report" where
  "warn r = r\<lparr>warnings := warnings r + 1\<rparr>"

subsection \<open>The disk as the verifier finds it\<close>

text \<open>
  The verifier only reads, and it may be run on any state of the disk. What it can
  observe is
  \<^item> \<open>fileAt\<close>: the text of the regular file at a path below the output root, which is
    what \<^verbatim>\<open>fs.readFileSync\<close> returns; for a path that is absent or a directory there is
    none and the call throws (\<^verbatim>\<open>ENOENT\<close>, \<^verbatim>\<open>EISDIR\<close>);
  \<^item> \<open>dirAt\<close>: whether a path below the output root is a directory, with or without
    files in it;
  \<^item> \<open>htmlFileTexts\<close>: the texts of the files that \<^verbatim>\<open>findHtmlFiles(OUTPUT)\<close> collects,
    the regular files below the output root whose name ends in \<^verbatim>\<open>.html\<close>;
  \<^item> \<open>existsOutside\<close>: the answer of \<^verbatim>\<open>fs.existsSync\<close> for a path that leaves the output
    directory, given by the number of levels it climbs above the output root, the
    segments that follow, and whether the path ends in a slash.
\<close>

record disk =
  fileAt :: "path \<Rightarrow> string option"
  dirAt :: "path \<Rightarrow> bool"
  htmlFileTexts :: "string list"
  existsOutside :: "nat \<Rightarrow> path \<Rightarrow> bool \<Rightarrow> bool"

text \<open>\<^verbatim>\<open>fs.existsSync\<close> accepts a directory as well as a file.\<close>

definition existsSync :: "disk \<Rightarrow> path \<Rightarrow> bool" where
  "existsSync d p = (fileAt d p \<noteq> None \<or> dirAt d p)"

text \<open>
  The disk after a build: the files of the output tree and the directories above them,
  together with what the tree does not tell, the directories without files and the
  disk outside the output directory.
\<close>

definition htmlFiles :: "tree \<Rightarrow> string list" where
  "htmlFiles out = map snd (filter (\<lambda>e. fst e \<noteq> [] \<and> suffix ''.html'' (last (fst e))) out)"

record surroundings =
  emptyDirs :: "path \<Rightarrow> bool"
  outside :: "nat \<Rightarrow> path \<Rightarrow> bool \<Rightarrow> bool"

definition onDisk :: "surroundings \<Rightarrow> tree \<Rightarrow> disk" where
  "onDisk w out =
     \<lparr>fileAt = map_of out,
      dirAt = (\<lambda>p. isDirectory out p \<or> emptyDirs w p),
      htmlFileTexts = htmlFiles out,
      existsOutside = outside w\<rparr>"

definition nothingElse :: surroundings where
  "nothingElse = \<lparr>emptyDirs = (\<lambda>p. False), outside = (\<lambda>up p slash. False)\<rparr>"

subsection \<open>Passes 1 to 4: pages and their content\<close>

text \<open>
  A pass over a list stops at the first element whose check throws: \<open>Inl\<close> carries the
  counters as they stand when the exception leaves the script, \<open>Inr\<close> the counters
  after the last element.
\<close>

fun forEach :: "(report \<Rightarrow> 'a \<Rightarrow> report + report) \<Rightarrow> report \<Rightarrow> 'a list \<Rightarrow> report + report" where
  "forEach f r [] = Inr r"
| "forEach f r (x # xs) = (case f r x of Inl r' \<Rightarrow> Inl r' | Inr r' \<Rightarrow> forEach f r' xs)"

text \<open>
  \<^verbatim>\<open>
  check(fs.existsSync(filePath), ...);
  if (fs.existsSync(filePath)) {
    const html = fs.readFileSync(filePath, 'utf8');
  \<close>
  A directory at the page's path passes both tests, and reading it throws.
\<close>

definition checkPerson :: "disk \<Rightarrow> report \<Rightarrow> person \<Rightarrow> report + report" where
  "checkPerson d r p =
     (let r1 = check (existsSync d (personPath p)) r in
      if existsSync d (personPath p) then
        (case fileAt d (personPath p) of
           None \<Rightarrow> Inl r1
         | Some html \<Rightarrow>
             let r2 = check (str_includes html (name p)) r1;
                 r3 = check (str_includes html (hero_image p)) r2;
                 r4 = check (str_includes html (thumbnail p)) r3
             in Inr (if length (interview_content p) > 100
                     then check (str_includes html (take 80 (interview_content p))) r4
                     else r4))
      else Inr r1)"

definition checkCategory :: "disk \<Rightarrow> report \<Rightarrow> category \<Rightarrow> report + report" where
  "checkCategory d r cat =
     (let r1 = check (existsSync d (categoryPath cat)) r in
      if existsSync d (categoryPath cat) then
        (case fileAt d (categoryPath cat) of
           None \<Rightarrow> Inl r1
         | Some html \<Rightarrow>
             Inr (foldl (\<lambda>r' pid. check (str_includes html (card_marker pid)) r') r1
                    (post_ids cat)))
      else Inr r1)"

definition checkStatic :: "disk \<Rightarrow> report \<Rightarrow> report" where
  "checkStatic d r =
     (let r1 = check (existsSync d [''index.html'']) r;
          r2 = check (existsSync d [''about'', ''index.html'']) r1;
          r3 = check (existsSync d [''submit'', ''index.html'']) r2;
          r4 = check (existsSync d [''favicon.ico'']) r3
      in check (existsSync d [''robots.txt'']) r4)"

definition checkHomepage :: "string \<Rightarrow> report \<Rightarrow> person \<Rightarrow> report" where
  "checkHomepage homepage r p =
     (let r1 = check (str_includes homepage (card_marker (post_id p))) r
      in check (str_includes homepage (''href='' @ quoted (''/'' @ slug p @ ''/''))) r1)"

subsection \<open>Passes 5 and 6: local asset references\<close>

fun strip_prefix :: "string \<Rightarrow> string \<Rightarrow> string option" where
  "strip_prefix [] s = Some s"
| "strip_prefix (p # ps) [] = None"
| "strip_prefix (p # ps) (c # cs) = (if p = c then strip_prefix ps cs else None)"

text \<open>An alternation of two literals neither of which starts like the other.\<close>

definition alt2 :: "string \<Rightarrow> string \<Rightarrow> string \<Rightarrow> (string \<times> string) option" where
  "alt2 a b s =
     (case strip_prefix a s of
        Some r \<Rightarrow> Some (a, r)
      | None \<Rightarrow> (case strip_prefix b s of Some r \<Rightarrow> Some (b, r) | None \<Rightarrow> None))"

definition is_quote :: "char \<Rightarrow> bool" where
  "is_quote c = (c = dq \<or> c = sq)"

text \<open>
  \<^verbatim>\<open>/(?:src|href)=["'](\/(assets|d1lhy388c2xgxf)[^"']+)["']/g\<close> tried at the head of
  \<open>s\<close>: the first group and the length of the whole match. The run of non-quote
  characters is greedy and must be followed by a quote, so only the longest run can
  match.
\<close>

definition match_ref_at :: "string \<Rightarrow> (string \<times> nat) option" where
  "match_ref_at s =
     (case alt2 ''src'' ''href'' s of
        None \<Rightarrow> None
      | Some (attr, r0) \<Rightarrow>
     (case strip_prefix ''='' r0 of
        None \<Rightarrow> None
      | Some r1 \<Rightarrow>
     (case r1 of
        [] \<Rightarrow> None
      | q # r2 \<Rightarrow>
     if \<not> is_quote q then None else
     (case strip_prefix ''/'' r2 of
        None \<Rightarrow> None
      | Some r3 \<Rightarrow>
     (case alt2 ''assets'' ''d1lhy388c2xgxf'' r3 of
        None \<Rightarrow> None
      | Some (root, r4) \<Rightarrow>
     (let run = takeWhile (\<lambda>c. \<not> is_quote c) r4 in
      case dropWhile (\<lambda>c. \<not> is_quote c) r4 of
        [] \<Rightarrow> None
      | closing # r5 \<Rightarrow>
          if run = [] then None
          else Some (''/'' @ root @ run,
                     length attr + 3 + length root + length run + 1)))))))"

text \<open>
  The \<^verbatim>\<open>while ((match = refRegex.exec(html)) !== null)\<close> loop: the groups of the
  successive matches; after a match the search resumes behind it (\<open>skip\<close> counts the
  characters of the match still to pass).
\<close>

fun scan_refs :: "nat \<Rightarrow> string \<Rightarrow> string list" where
  "scan_refs skip [] = []"
| "scan_refs (Suc k) (c # cs) = scan_refs k cs"
| "scan_refs 0 (c # cs) =
     (case match_ref_at (c # cs) of
        None \<Rightarrow> scan_refs 0 cs
      | Some (g, len) \<Rightarrow> g # scan_refs (len - 1) cs)"

text \<open>
  \<^verbatim>\<open>/url\(['"]?(\/(assets|d1lhy388c2xgxf)[^'")]+)['"]?\)/g\<close> tried at the head of \<open>s\<close>.
\<close>

definition is_url_stop :: "char \<Rightarrow> bool" where
  "is_url_stop c = (c = sq \<or> c = dq \<or> c = CHR '')'')"

definition opt_quote :: "string \<Rightarrow> nat \<times> string" where
  "opt_quote s = (case s of [] \<Rightarrow> (0, s) | c # r \<Rightarrow> if is_quote c then (1, r) else (0, s))"

definition match_url_at :: "string \<Rightarrow> (string \<times> nat) option" where
  "match_url_at s =
     (case strip_prefix ''url('' s of
        None \<Rightarrow> None
      | Some r0 \<Rightarrow>
     (case opt_quote r0 of (q1, r1) \<Rightarrow>
     (case strip_prefix ''/'' r1 of
        None \<Rightarrow> None
      | Some r2 \<Rightarrow>
     (case alt2 ''assets'' ''d1lhy388c2xgxf'' r2 of
        None \<Rightarrow> None
      | Some (root, r3) \<Rightarrow>
     (let run = takeWhile (\<lambda>c. \<not> is_url_stop c) r3 in
      if run = [] then None else
      (case opt_quote (dropWhile (\<lambda>c. \<not> is_url_stop c) r3) of (q2, r4) \<Rightarrow>
      (case strip_prefix '')'' r4 of
         None \<Rightarrow> None
       | Some r5 \<Rightarrow>
           Some (''/'' @ root @ run,
                 4 + q1 + 1 + length root + length run + q2 + 1))))))))"

fun scan_urls :: "nat \<Rightarrow> string \<Rightarrow> string list" where
  "scan_urls skip [] = []"
| "scan_urls (Suc k) (c # cs) = scan_urls k cs"
| "scan_urls 0 (c # cs) =
     (case match_url_at (c # cs) of
        None \<Rightarrow> scan_urls 0 cs
      | Some (g, len) \<Rightarrow> g # scan_urls (len - 1) cs)"

text \<open>
  \<^verbatim>\<open>path.join(OUTPUT, ref)\<close> for a reference that starts with a slash. The joined path
  is normalized: empty segments and \<^verbatim>\<open>.\<close> are dropped, and \<^verbatim>\<open>..\<close> drops the segment
  before it; when no segment of the reference is left to drop, the path climbs one
  level above the output root. The result is the number of levels climbed and the
  segments from there. The normalized path ends in a slash exactly when the reference
  does.
\<close>

fun normalize :: "path \<Rightarrow> nat \<Rightarrow> path \<Rightarrow> nat \<times> path" where
  "normalize acc up [] = (up, rev acc)"
| "normalize acc up (s # ss) =
     (if s = [] \<or> s = ''.'' then normalize acc up ss
      else if s = ''..'' then
        (case acc of [] \<Rightarrow> normalize [] (Suc up) ss | _ # acc' \<Rightarrow> normalize acc' up ss)
      else normalize (s # acc) up ss)"

definition trailingSlash :: "string \<Rightarrow> bool" where
  "trailingSlash ref = (ref \<noteq> [] \<and> last ref = CHR ''/'')"

text \<open>
  \<^verbatim>\<open>fs.existsSync(assetPath)\<close>: below the output root a file or a directory, and only a
  directory when the path ends in a slash; outside the output root whatever the disk
  holds there.
\<close>

definition assetExists :: "disk \<Rightarrow> string \<Rightarrow> bool" where
  "assetExists d ref =
     (case normalize [] 0 (split_str ref ''/'') of
        (0, p) \<Rightarrow> if trailingSlash ref then dirAt d p else existsSync d p
      | (Suc k, p) \<Rightarrow> existsOutside d (Suc k) p (trailingSlash ref))"

text \<open>
  One reference: skipped when \<^verbatim>\<open>checkedPaths\<close> has it, else remembered and, when
  nothing is found at its path, warned about.
\<close>

definition checkRef :: "disk \<Rightarrow> string list \<times> report \<Rightarrow> string \<Rightarrow> string list \<times> report" where
  "checkRef d st ref =
     (case st of (checkedPaths, r) \<Rightarrow>
        if ref \<in> set checkedPaths then st
        else (ref # checkedPaths, if \<not> assetExists d ref then warn r else r))"

definition checkHtmlRefs :: "disk \<Rightarrow> string list \<times> report \<Rightarrow> string \<Rightarrow> string list \<times> report" where
  "checkHtmlRefs d st html =
     foldl (\<lambda>st' m. checkRef d st' (hd (split_str m ''?''))) st (scan_refs 0 html)"

text \<open>
  \<^verbatim>\<open>
  if (fs.existsSync(cssPath)) {
    const css = fs.readFileSync(cssPath, 'utf8');
  \<close>
  Here too a directory at the path passes the test and reading it throws (\<open>Inl\<close>, with
  the counters as they stand).
\<close>

definition checkCssRefs :: "disk \<Rightarrow> string list \<times> report \<Rightarrow> report + string list \<times> report" where
  "checkCssRefs d st =
     (if existsSync d [''assets'', ''css'', ''techies.css''] then
        (case fileAt d [''assets'', ''css'', ''techies.css''] of
           None \<Rightarrow> Inl (snd st)
         | Some css \<Rightarrow>
             Inr (foldl (\<lambda>st' m. checkRef d st' (hd (split_str (hd (split_str m ''?'')) ''#'')))
                    st (scan_urls 0 css)))
      else Inr st)"

subsection \<open>Pass 7: legacy remnants\<close>

definition remnants :: "string list" where
  "remnants = [''wp-content/'', ''wp-includes/'', ''wp-json/'', ''xmlrpc.php'',
               ''wpemojiSettings'', ''s3-us-west-2'']"

definition checkRemnants :: "report \<Rightarrow> string \<Rightarrow> report" where
  "checkRemnants r html = foldl (\<lambda>r' w. if str_includes html w then warn r' else r') r remnants"

subsection \<open>The run and its exit status\<close>

text \<open>
  The passes in order, for a run that has loaded the Store (\<open>people\<close> and
  \<open>categories\<close>; without the Store the script stops before its first check).
  \<open>qualityChecks\<close> is passes 5 to 7, which only warn. Nothing in the script catches an
  exception, so the first call that throws ends the run with the counters as they
  stand (\<open>Inl\<close>), and Node ends the process with status 1: reading a page, the
  homepage or the stylesheet where a directory is, and reading the homepage where
  nothing is. A run that reaches the end (\<open>Inr\<close>) calls \<^verbatim>\<open>process.exit(1)\<close> when
  \<^verbatim>\<open>errors > 0\<close> and otherwise ends with status 0.
\<close>

definition qualityChecks :: "disk \<Rightarrow> report \<Rightarrow> report + report" where
  "qualityChecks d r4 =
     (let st5 = foldl (checkHtmlRefs d) ([], r4) (htmlFileTexts d) in
      case checkCssRefs d st5 of
        Inl r \<Rightarrow> Inl r
      | Inr st6 \<Rightarrow> Inr (foldl checkRemnants (snd st6) (htmlFileTexts d)))"

definition verify :: "person list \<Rightarrow> category list \<Rightarrow> disk \<Rightarrow> report + report" where
  "verify people categories d =
     (let r0 = \<lparr>errors = 0, warnings = 0\<rparr> in
      case forEach (checkPerson d) r0 people of
        Inl r \<Rightarrow> Inl r
      | Inr r1 \<Rightarrow>
     (case forEach (checkCategory d) r1 categories of
        Inl r \<Rightarrow> Inl r
      | Inr r2 \<Rightarrow>
     (let r3 = checkStatic d r2 in
      case fileAt d [''index.html''] of
        None \<Rightarrow> Inl r3
      | Some homepage \<Rightarrow>
          let r4 = foldl (checkHomepage homepage) r3 people
          in qualityChecks d r4)))"

definition exitStatus :: "report + report \<Rightarrow> nat" where
  "exitStatus run =
     (case run of
        Inl r \<Rightarrow> 1
      | Inr r \<Rightarrow> if errors r > 0 then 1 else 0)"

definition finalReport :: "report + report \<Rightarrow> report" where
  "finalReport run = (case run of Inl r \<Rightarrow> r | Inr r \<Rightarrow> r)"

definition completed :: "report + report \<Rightarrow> bool" where
  "completed run = (case run of Inl r \<Rightarrow> False | Inr r \<Rightarrow> True)"

text \<open>
  The paths the script reads with \<^verbatim>\<open>fs.readFileSync\<close> after \<^verbatim>\<open>fs.existsSync\<close> accepted
  them, or without asking: a run meets a directory when one of them is a directory.
\<close>

definition directoryAt :: "disk \<Rightarrow> path \<Rightarrow> bool" where
  "directoryAt d p = (dirAt d p \<and> fileAt d p = None)"

definition readsDirectory :: "person list \<Rightarrow> category list \<Rightarrow> disk \<Rightarrow> bool" where
  "readsDirectory people categories d =
     (list_ex (\<lambda>p. directoryAt d (personPath p)) people
      \<or> list_ex (\<lambda>cat. directoryAt d (categoryPath cat)) categories
      \<or> directoryAt d [''index.html'']
      \<or> directoryAt d [''assets'', ''css'', ''techies.css''])"

section \<open>The extractor (extract.js)\<close>

subsection \<open>Text helpers\<close>

text \<open>
  \<^verbatim>\<open>s.indexOf(pat, position)\<close>: the first index at or after the position where \<open>pat\<close>
  starts, or \<open>-1\<close>; the position is clamped to the string. \<open>index_from\<close> searches a
  tail of the string that starts at index \<open>i\<close>.
\<close>

fun index_from :: "string \<Rightarrow> string \<Rightarrow> nat \<Rightarrow> int" where
  "index_from pat [] i = (if pat = [] then int i else - 1)"
| "index_from pat (c # cs) i =
     (if prefix pat (c # cs) then int i else index_from pat cs (Suc i))"

definition indexOf :: "string \<Rightarrow> string \<Rightarrow> int \<Rightarrow> int" where
  "indexOf s pat position =
     (let k = nat (min (max position 0) (int (length s)))
      in index_from pat (drop k s) k)"

text \<open>
  \<^verbatim>\<open>s.substring(a, b)\<close>: both ends clamped to the string, and swapped when out of
  order.
\<close>

definition substring :: "string \<Rightarrow> int \<Rightarrow> int \<Rightarrow> string" where
  "substring s a b =
     (let n = int (length s);
          a' = min (max a 0) n;
          b' = min (max b 0) n
      in take (nat (max a' b' - min a' b')) (drop (nat (min a' b')) s))"

text \<open>
  \<^verbatim>\<open>
  function extractBetween(html, startMarker, endMarker) {
    const startIdx = html.indexOf(startMarker);
    if (startIdx === -1) return '';
    const afterStart = startIdx + startMarker.length;
    const endIdx = html.indexOf(endMarker, afterStart);
    if (endIdx === -1) return '';
    return html.substring(afterStart, endIdx);
  }
  \<close>
\<close>

definition extractBetween :: "string \<Rightarrow> string \<Rightarrow> string \<Rightarrow> string" where
  "extractBetween html startMarker endMarker =
     (let startIdx = indexOf html startMarker 0 in
      if startIdx = - 1 then []
      else
        let afterStart = startIdx + int (length startMarker);
            endIdx = indexOf html endMarker afterStart
        in if endIdx = - 1 then [] else substring html afterStart endIdx)"

text \<open>
  A regular expression is modelled by what \<^verbatim>\<open>html.match(regex)\<close> yields for it: \<open>None\<close>
  when there is no match, else the first capture group of the leftmost match (every
  expression passed to \<^verbatim>\<open>extractMatch\<close> has a first group that takes part in each of
  its matches).
  \<^verbatim>\<open>
  function extractMatch(html, regex) {
    const m = html.match(regex);
    return m ? m[1] : '';
  }
  \<close>
\<close>

type_synonym regex = "string \<Rightarrow> string option"

definition extractMatch :: "string \<Rightarrow> regex \<Rightarrow> string" where
  "extractMatch html rx = (case rx html of None \<Rightarrow> [] | Some g \<Rightarrow> g)"

subsection \<open>The numeric identifier of a person page\<close>

definition is_digit :: "char \<Rightarrow> bool" where
  "is_digit c = (c \<in> set ''0123456789'')"

text \<open>
  \<^verbatim>\<open>/href='\/?[?]p=(\d+)'/\<close> tried at the head of \<open>s\<close>. The optional slash and the
  run of digits are greedy, and what follows each of them cannot start like it, so no
  shorter choice can match.
\<close>

definition match_shortlink_at :: "string \<Rightarrow> string option" where
  "match_shortlink_at s =
     (case strip_prefix (''href='' @ [sq]) s of
        None \<Rightarrow> None
      | Some r1 \<Rightarrow>
     (let r2 = (case strip_prefix ''/'' r1 of Some r \<Rightarrow> r | None \<Rightarrow> r1) in
      case strip_prefix ''?p='' r2 of
        None \<Rightarrow> None
      | Some r3 \<Rightarrow>
          (case dropWhile is_digit r3 of
             [] \<Rightarrow> None
           | c # r4 \<Rightarrow>
               if takeWhile is_digit r3 \<noteq> [] \<and> c = sq
               then Some (takeWhile is_digit r3) else None)))"

fun shortlinkRegex :: regex where
  "shortlinkRegex [] = None"
| "shortlinkRegex (c # cs) =
     (case match_shortlink_at (c # cs) of
        Some g \<Rightarrow> Some g
      | None \<Rightarrow> shortlinkRegex cs)"

text \<open>
  \<^verbatim>\<open>parseInt(text, 10)\<close> on what the expression above hands it, which is empty or all
  digits: \<open>None\<close> stands for \<^verbatim>\<open>NaN\<close>, and the number is the double nearest to the
  integer the digits spell.
\<close>

definition digit_value :: "char \<Rightarrow> nat" where
  "digit_value c = of_char c - 48"

definition parseInt10 :: "string \<Rightarrow> nat option" where
  "parseInt10 s =
     (let ds = takeWhile is_digit s
      in if ds = [] then None
         else Some (toDouble (foldl (\<lambda>n c. 10 * n + digit_value c) 0 ds)))"

text \<open>
  \<^verbatim>\<open>const post_id = parseInt(extractMatch(html, /href='\/?[?]p=(\d+)'/), 10) || 0;\<close>
\<close>

definition pagePostId :: "string \<Rightarrow> nat" where
  "pagePostId html =
     (case parseInt10 (extractMatch html shortlinkRegex) of None \<Rightarrow> 0 | Some n \<Rightarrow> n)"

subsection \<open>Person pages and the main loop\<close>

text \<open>
  The source tree is read only: \<open>files\<close> gives the text of the file at a path relative
  to the repository root, \<open>None\<close> when \<^verbatim>\<open>fs.existsSync\<close> says there is none.

  \<open>pageFields\<close> stands for the other expressions of \<^verbatim>\<open>parsePersonPage\<close> (hero image,
  name, thumbnail, meta fields, abstract, links, content, prev and next), which read
  the page text and nothing else; \<^verbatim>\<open>parsePersonPage\<close> adds the slug and the numeric
  identifier. \<open>log\<close> collects the \<^verbatim>\<open>console.warn\<close> lines.
\<close>

type_synonym files = "string \<rightharpoonup> string"

definition filePath :: "string \<Rightarrow> string" where
  "filePath sl = sl @ ''/index.html''"

definition parsePersonPage ::
  "(string \<Rightarrow> person) \<Rightarrow> files \<Rightarrow> string \<Rightarrow> string list \<Rightarrow> person option \<times> string list" where
  "parsePersonPage pageFields fs sl log =
     (case fs (filePath sl) of
        None \<Rightarrow> (None, log @ [''  WARNING: '' @ filePath sl @ '' not found, skipping''])
      | Some html \<Rightarrow>
          (Some ((pageFields html)\<lparr>slug := sl, post_id := pagePostId html\<rparr>), log))"

text \<open>One card of the listing, as \<^verbatim>\<open>parseHomepage\<close> returns it.\<close>

record entry =
  entry_post_id :: nat
  entry_slug :: string
  entry_name :: string
  entry_title :: string

text \<open>
  \<^verbatim>\<open>
  const titleBySlug = {};
  for (const entry of homepageEntries) { titleBySlug[entry.slug] = entry.title; }
  \<close>
  A plain object as a dictionary from slugs to titles (the one key a plain object does
  not store, \<^verbatim>\<open>__proto__\<close>, is left out of account).
\<close>

definition titleBySlug :: "entry list \<Rightarrow> (string \<rightharpoonup> string)" where
  "titleBySlug entries = foldl (\<lambda>m e. m(entry_slug e \<mapsto> entry_title e)) Map.empty entries"

text \<open>
  \<^verbatim>\<open>
  for (const entry of homepageEntries) {
    const person = parsePersonPage(entry.slug);
    if (person) {
      person.title = titleBySlug[entry.slug] || '';
      if (!person.post_id) person.post_id = entry.post_id;
      people.push(person);
    }
  }
  \<close>
\<close>

definition mergeEntry :: "(string \<rightharpoonup> string) \<Rightarrow> entry \<Rightarrow> person \<Rightarrow> person" where
  "mergeEntry titles e p =
     p\<lparr>title := (case titles (entry_slug e) of None \<Rightarrow> [] | Some t \<Rightarrow> t),
       post_id := (if post_id p = 0 then entry_post_id e else post_id p)\<rparr>"

definition extractStep ::
  "(string \<Rightarrow> person) \<Rightarrow> files \<Rightarrow> (string \<rightharpoonup> string) \<Rightarrow> person list \<times> string list \<Rightarrow> entry
     \<Rightarrow> person list \<times> string list" where
  "extractStep pageFields fs titles st e =
     (case st of (people, log) \<Rightarrow>
        (case parsePersonPage pageFields fs (entry_slug e) log of
           (None, log') \<Rightarrow> (people, log')
         | (Some person, log') \<Rightarrow> (people @ [mergeEntry titles e person], log')))"

definition extractPeople ::
  "(string \<Rightarrow> person) \<Rightarrow> files \<Rightarrow> entry list \<Rightarrow> person list \<times> string list" where
  "extractPeople pageFields fs entries =
     foldl (extractStep pageFields fs (titleBySlug entries)) ([], []) entries"

section \<open>A small site\<close>

text \<open>
  The scenario of the specification: one person, Ada (id 42), and the two categories
  \<open>backend\<close> (ids 42) and \<open>frontend\<close> (ids 42 and 99, where 99 has no record), with
  short templates that use every placeholder the pages need.
\<close>

definition scenario_templates :: templates where
  "scenario_templates =
     \<lparr>partial_head = ''<head>{{HEAD_EXTRA}}</head>'',
      partial_nav = ''<nav>{{ABOUT_ACTIVE}}|{{SUBMIT_ACTIVE}}</nav>'',
      partial_footer = ''<footer/>'',
      partial_scripts = ''<script/>'',
      personTemplate = ''{{HEAD}}{{NAV}}<h1>{{NAME}}</h1>{{HERO_IMAGE}} {{THUMBNAIL}} {{ROLE}} {{INTERVIEW_CONTENT}}'',
      homepageTemplate = ''{{HEAD}}{{CATEGORY_LIST}}{{GALLERY_CARDS}}'',
      categoryTemplate = ''{{HEAD}}{{CATEGORY_LIST_INLINE}}{{GALLERY_CARDS}}'',
      aboutTemplate = ''{{HEAD}}{{NAV}}about'',
      submitTemplate = ''{{HEAD}}{{NAV}}submit''\<rparr>"

definition ada :: person where
  "ada =
     \<lparr>slug = ''ada'', post_id = 42, name = ''Ada'', hero_image = ''ada.jpg'',
      thumbnail = ''ada-280.jpg'', years_in_tech = ''5'', role = ''Engineer'',
      location = ''London'', interview_date = ''2016'', abstract = ''<p>abstract</p>'',
      personal_links = [\<lparr>url = ''https://example.org'', label = ''site''\<rparr>],
      interview_content =
        ''<p>I started programming on a borrowed machine and never stopped; ''
        @ ''twenty years later I still enjoy it every single day.</p>'',
      prev_ref = None, next_ref = None, title = ''Engineer''\<rparr>"

definition backend :: category where
  "backend = \<lparr>cat_slug = ''backend'', display_name = ''Backend'', post_ids = [42]\<rparr>"

definition frontend :: category where
  "frontend = \<lparr>cat_slug = ''frontend'', display_name = ''Frontend'', post_ids = [42, 99]\<rparr>"

definition scenario_site :: site where
  "scenario_site =
     \<lparr>site_people = [ada], site_categories = [backend, frontend],
      site_templates = scenario_templates,
      site_assets = [], site_cdn = [([''thumbnails'', ''ada-280.jpg''], ''jpeg'')],
      site_favicon = ''icon''\<rparr>"

text \<open>
  A source tree for the extractor: the listing names Ada, Bob and Cy; Ada's page carries
  the shortlink \<open>?p=7\<close>, Cy's page carries none, and Bob's page is missing.
\<close>

definition ada_page :: string where
  "ada_page = ''<link rel='' @ squoted ''shortlink'' @ '' href='' @ squoted ''/?p=7'' @ '' />''"

definition cy_page :: string where
  "cy_page = ''<html>no shortlink</html>''"

definition listing :: "entry list" where
  "listing =
     [\<lparr>entry_post_id = 42, entry_slug = ''ada'', entry_name = ''Ada'', entry_title = ''Engineer''\<rparr>,
      \<lparr>entry_post_id = 43, entry_slug = ''bob'', entry_name = ''Bob'', entry_title = ''Designer''\<rparr>,
      \<lparr>entry_post_id = 44, entry_slug = ''cy'', entry_name = ''Cy'', entry_title = ''Founder''\<rparr>]"

definition source_files :: files where
  "source_files = [''ada/index.html'' \<mapsto> ada_page, ''cy/index.html'' \<mapsto> cy_page]"



text \<open>A second record with Ada's post id.\<close>

definition ada_twin :: person where
  "ada_twin = ada\<lparr>slug := ''ada-2'', name := ''Ada II'', thumbnail := ''ada2.jpg'', title := ''CTO''\<rparr>"


text \<open>
  An output directory in which \<^verbatim>\<open>index.html\<close> is a directory, with a file of its own in
  it, and the other static files are in place.
\<close>

definition homepage_is_directory :: tree where
  "homepage_is_directory =
     [([''index.html'', ''index.html''], ''<html></html>''),
      ([''about'', ''index.html''], ''about''),
      ([''submit'', ''index.html''], ''submit''),
      ([''favicon.ico''], ''icon''),
      ([''robots.txt''], robotsTxt)]"
section \<open>Facts about splitting and joining\<close>

lemma split_from_not_Nil: "split_from sep cur s \<noteq> []"
  by (induction sep cur s rule: split_from.induct) auto

declare split_from.simps(2) [simp del]

lemma split_from_match:
  "sep \<noteq> [] \<Longrightarrow> prefix sep (c # cs) \<Longrightarrow>
   split_from sep cur (c # cs) = rev cur # split_from sep [] (drop (length sep) (c # cs))"
  by (subst split_from.simps(2)) simp

lemma split_from_skip:
  "\<not> (sep \<noteq> [] \<and> prefix sep (c # cs)) \<Longrightarrow>
   split_from sep cur (c # cs) = split_from sep (c # cur) cs"
  by (subst split_from.simps(2)) (rule if_not_P)

lemma join_str_Cons: "ys \<noteq> [] \<Longrightarrow> join_str v (x # ys) = x @ v @ join_str v ys"
  by (cases ys) auto

lemma join_split_from:
  "join_str v (split_from sep cur s) = rev cur @ join_str v (split_from sep [] s)"
proof (induction s arbitrary: cur rule: length_induct)
  case (1 s)
  show ?case
  proof (cases s)
    case Nil
    then show ?thesis by simp
  next
    case (Cons c cs)
    show ?thesis
    proof (cases "sep \<noteq> [] \<and> prefix sep (c # cs)")
      case True
      then have "split_from sep cur s
                   = rev cur # split_from sep [] (drop (length sep) (c # cs))"
        and "split_from sep [] s = [] # split_from sep [] (drop (length sep) (c # cs))"
        using Cons by (simp_all add: split_from_match)
      then show ?thesis
        by (simp add: join_str_Cons split_from_not_Nil)
    next
      case False
      have len: "length cs < length s"
        using Cons by simp
      have "join_str v (split_from sep (c # cur) cs)
              = rev (c # cur) @ join_str v (split_from sep [] cs)"
        by (rule "1.IH"[rule_format, OF len])
      moreover have "join_str v (split_from sep [c] cs)
              = rev [c] @ join_str v (split_from sep [] cs)"
        by (rule "1.IH"[rule_format, OF len])
      moreover have "split_from sep cur s = split_from sep (c # cur) cs"
        and "split_from sep [] s = split_from sep [c] cs"
        unfolding Cons by (rule split_from_skip[OF False])+
      ultimately show ?thesis
        by simp
    qed
  qed
qed

lemma replace_all_Nil: "replace_all pat v [] = []"
  by (simp add: replace_all_def split_str_def)

lemma replace_all_match:
  assumes "pat \<noteq> []" and "prefix pat (c # cs)"
  shows "replace_all pat v (c # cs) = v @ replace_all pat v (drop (length pat) (c # cs))"
proof -
  have "split_from pat [] (c # cs) = [] # split_from pat [] (drop (length pat) (c # cs))"
    using assms by (simp add: split_from_match)
  then show ?thesis
    using assms(1) by (simp add: replace_all_def split_str_def join_str_Cons split_from_not_Nil)
qed

lemma replace_all_skip:
  assumes "pat \<noteq> []" and "\<not> prefix pat (c # cs)"
  shows "replace_all pat v (c # cs) = c # replace_all pat v cs"
proof -
  have "join_str v (split_from pat [c] cs) = rev [c] @ join_str v (split_from pat [] cs)"
    by (rule join_split_from)
  moreover have "split_from pat [] (c # cs) = split_from pat [c] cs"
    using assms by (simp add: split_from_skip)
  ultimately show ?thesis
    using assms(1) by (simp add: replace_all_def split_str_def)
qed

section \<open>Facts about placeholder substitution\<close>

lemma placeholder_Cons: "placeholder k = CHR ''{'' # CHR ''{'' # k @ ''}}''"
  by (simp add: placeholder_def)

lemma placeholder_not_Nil: "placeholder k \<noteq> []"
  by (simp add: placeholder_Cons)

lemma brace_safe_Cons:
  "brace_safe (c # s) \<longleftrightarrow>
     (case s of [] \<Rightarrow> c \<noteq> CHR ''{'' | d # _ \<Rightarrow> (c \<noteq> CHR ''{'' \<or> d \<noteq> CHR ''{'') \<and> brace_safe s)"
  by (cases s) simp_all

lemma brace_safe_append: "brace_safe a \<Longrightarrow> brace_safe b \<Longrightarrow> brace_safe (a @ b)"
proof (induction a rule: brace_safe.induct)
  case 1
  then show ?case by simp
next
  case (2 c)
  then show ?case by (cases b) simp_all
next
  case (3 c d cs)
  then show ?case by simp
qed

lemma replace_all_literal:
  "brace_safe s \<Longrightarrow>
   replace_all (placeholder k) v (s @ r) = s @ replace_all (placeholder k) v r"
proof (induction s rule: brace_safe.induct)
  case 1
  then show ?case by simp
next
  case (2 c)
  then have "\<not> prefix (placeholder k) (c # r)"
    by (simp add: placeholder_Cons)
  then show ?case
    by (simp add: replace_all_skip placeholder_not_Nil)
next
  case (3 c d cs)
  then have "\<not> prefix (placeholder k) (c # d # cs @ r)"
    by (auto simp: placeholder_Cons)
  then have "replace_all (placeholder k) v ((c # d # cs) @ r)
               = c # replace_all (placeholder k) v ((d # cs) @ r)"
    by (simp add: replace_all_skip placeholder_not_Nil)
  then show ?case
    using 3 by simp
qed

lemma replace_all_same:
  "replace_all (placeholder k) v (placeholder k @ r) = v @ replace_all (placeholder k) v r"
proof -
  obtain c cs where cs: "placeholder k @ r = c # cs"
    by (simp add: placeholder_Cons)
  have "prefix (placeholder k) (c # cs)"
    by (metis cs prefixI)
  then have "replace_all (placeholder k) v (c # cs)
               = v @ replace_all (placeholder k) v (drop (length (placeholder k)) (c # cs))"
    by (rule replace_all_match[OF placeholder_not_Nil])
  then show ?thesis
    by (simp flip: cs)
qed

lemma name_closing_unique:
  "name_ok k \<Longrightarrow> name_ok n \<Longrightarrow> prefix (k @ ''}}'') (n @ ''}}'' @ r) \<Longrightarrow> k = n"
proof (induction k arbitrary: n)
  case Nil
  then show ?case by (cases n) (auto simp: name_ok_def)
next
  case (Cons c k)
  then show ?case by (cases n) (auto simp: name_ok_def)
qed

lemma name_ok_brace_safe: "name_ok n \<Longrightarrow> brace_safe n"
  by (induction n rule: brace_safe.induct) (auto simp: name_ok_def)

lemma brace_safe_name: "name_ok n \<Longrightarrow> brace_safe (n @ ''}}'')"
  by (rule brace_safe_append[OF name_ok_brace_safe]) simp_all

lemma replace_all_other:
  assumes "name_ok k" and "name_ok n" and "n \<noteq> k"
  shows "replace_all (placeholder k) v (placeholder n @ r)
           = placeholder n @ replace_all (placeholder k) v r"
proof -
  let ?tail = "CHR ''{'' # n @ ''}}''"
  have eq: "placeholder n @ r = CHR ''{'' # (?tail @ r)"
    by (simp add: placeholder_Cons)
  have "\<not> prefix (placeholder k) (placeholder n @ r)"
    using name_closing_unique[OF assms(1,2)] assms(3) by (auto simp: placeholder_Cons)
  then have np: "\<not> prefix (placeholder k) (CHR ''{'' # (?tail @ r))"
    unfolding eq .
  have "replace_all (placeholder k) v (CHR ''{'' # (?tail @ r))
          = CHR ''{'' # replace_all (placeholder k) v (?tail @ r)"
    by (rule replace_all_skip[OF placeholder_not_Nil np])
  moreover have "brace_safe ?tail"
  proof (cases n)
    case Nil
    then show ?thesis by simp
  next
    case (Cons a m)
    then have "a \<noteq> CHR ''{''"
      using assms(2) by (auto simp: name_ok_def)
    then show ?thesis
      using brace_safe_name[OF assms(2)] Cons by simp
  qed
  ultimately have "replace_all (placeholder k) v (CHR ''{'' # (?tail @ r))
          = CHR ''{'' # (?tail @ replace_all (placeholder k) v r)"
    by (simp only: replace_all_literal)
  then show ?thesis
    by (simp only: eq) (simp add: placeholder_Cons)
qed

lemma flatten_Cons: "flatten (t # ts) = token_text t @ flatten ts"
  by (simp add: flatten_def)

lemma replace_all_flatten:
  "list_all token_ok toks \<Longrightarrow> name_ok k \<Longrightarrow>
   replace_all (placeholder k) v (flatten toks) = flatten (map (step_token k v) toks)"
proof (induction toks)
  case Nil
  then show ?case by (simp add: flatten_def replace_all_Nil)
next
  case (Cons t ts)
  show ?case
  proof (cases t)
    case (Lit s)
    then show ?thesis
      using Cons by (simp add: flatten_Cons replace_all_literal)
  next
    case (Ph n)
    then show ?thesis
      using Cons by (simp add: flatten_Cons replace_all_same replace_all_other)
  qed
qed

lemma render_Nil: "render t [] = t"
  by (simp add: render_def)

lemma render_Cons: "render t ((k, v) # rest) = render (replace_all (placeholder k) v t) rest"
  by (simp add: render_def replace_all_def)

lemma subst_step: "subst rest (step_token k v t) = subst ((k, v) # rest) t"
  by (cases t) auto

lemma token_ok_step: "brace_safe v \<Longrightarrow> token_ok t \<Longrightarrow> token_ok (step_token k v t)"
  by (cases t) simp_all

lemma render_tokens:
  "list_all token_ok toks \<Longrightarrow> vars_ok vars \<Longrightarrow>
   render (flatten toks) vars = concat (map (subst vars) toks)"
proof (induction vars arbitrary: toks)
  case Nil
  have "subst [] = token_text"
  proof
    fix x show "subst [] x = token_text x" by (cases x) simp_all
  qed
  then show ?case
    by (simp add: render_Nil flatten_def)
next
  case (Cons kv rest)
  obtain k v where kv: "kv = (k, v)"
    by (cases kv)
  have ok: "name_ok k" "brace_safe v" "vars_ok rest"
    using Cons.prems(2) by (simp_all add: vars_ok_def kv)
  have toks': "list_all token_ok (map (step_token k v) toks)"
    using Cons.prems(1) ok(2) by (simp add: list_all_iff token_ok_step)
  have "render (flatten toks) (kv # rest) = render (flatten (map (step_token k v) toks)) rest"
    by (simp add: kv render_Cons replace_all_flatten[OF Cons.prems(1) ok(1)])
  also have "\<dots> = concat (map (subst rest) (map (step_token k v) toks))"
    by (rule Cons.IH[OF toks' ok(3)])
  also have "\<dots> = concat (map (subst (kv # rest)) toks)"
    by (simp add: kv subst_step comp_def)
  finally show ?case .
qed


section \<open>A placeholder survives the rounds of the other keys\<close>

lemma placeholder_brace_index:
  assumes "name_ok k" and "i < length (placeholder k)" and "placeholder k ! i = CHR ''{''"
  shows "i < 2"
proof (rule ccontr)
  assume "\<not> i < 2"
  then obtain j where i: "i = 2 + j"
    by (metis le_add_diff_inverse not_less)
  have "placeholder k ! i = (k @ ''}}'') ! j"
    by (simp add: i placeholder_Cons)
  moreover have "j < length (k @ ''}}'')"
    using assms(2) by (simp add: i placeholder_Cons)
  ultimately have "CHR ''{'' \<in> set (k @ ''}}'')"
    using assms(3) by (metis nth_mem)
  then show False
    using assms(1) by (simp add: name_ok_def)
qed

lemma placeholder_no_overlap:
  assumes "name_ok k" and "name_ok n" and "n \<noteq> k"
    and pre: "prefix (placeholder k) (a @ placeholder n @ b)"
  shows "length (placeholder k) \<le> length a"
proof (rule ccontr)
  assume "\<not> length (placeholder k) \<le> length a"
  then have short: "length a < length (placeholder k)"
    by simp
  have len: "4 \<le> length (placeholder k)"
    by (simp add: placeholder_Cons)
  obtain zs where zs: "a @ placeholder n @ b = placeholder k @ zs"
    using pre by (auto simp: prefix_def)
  have at: "placeholder k ! i = (a @ placeholder n @ b) ! i" if "i < length (placeholder k)" for i
  proof -
    have "(placeholder k @ zs) ! i = placeholder k ! i"
      using that by (simp add: nth_append)
    then show ?thesis
      by (simp only: zs)
  qed
  have "placeholder k ! length a = CHR ''{''"
    using at[OF short] by (simp add: nth_append placeholder_Cons)
  then have a2: "length a < 2"
    using assms(1) short by (rule placeholder_brace_index[rotated 2])
  then have short': "length a + 1 < length (placeholder k)"
    using len by simp
  have "placeholder k ! (length a + 1) = CHR ''{''"
    using at[OF short'] by (simp add: nth_append placeholder_Cons)
  then have "length a + 1 < 2"
    using assms(1) short' by (rule placeholder_brace_index[rotated 2])
  then have "a = []"
    by simp
  then have "prefix (k @ ''}}'') (n @ ''}}'' @ b)"
    using pre by (simp add: placeholder_Cons)
  then have "k = n"
    by (rule name_closing_unique[OF assms(1,2)])
  then show False
    using assms(3) by simp
qed

lemma replace_all_keeps_other:
  assumes "name_ok k" and "name_ok n" and "n \<noteq> k"
  shows "sublist (placeholder n) s \<Longrightarrow> sublist (placeholder n) (replace_all (placeholder k) v s)"
proof (induction s rule: length_induct)
  case (1 s)
  note IH = "1.IH"[rule_format]
  from "1.prems" obtain a b where s: "s = a @ placeholder n @ b"
    by (auto simp: sublist_def)
  then have "s \<noteq> []"
    by (simp add: placeholder_Cons)
  then obtain c cs where cs: "s = c # cs"
    by (cases s) auto
  show ?case
  proof (cases "prefix (placeholder k) s")
    case True
    then have "length (placeholder k) \<le> length a"
      unfolding s by (rule placeholder_no_overlap[OF assms])
    then have "drop (length (placeholder k)) s
                 = drop (length (placeholder k)) a @ placeholder n @ b"
      by (simp add: s)
    then have sub: "sublist (placeholder n) (drop (length (placeholder k)) s)"
      by (metis sublist_appendI)
    have "length (drop (length (placeholder k)) s) < length s"
      by (simp add: cs placeholder_Cons)
    then have "sublist (placeholder n)
                 (replace_all (placeholder k) v (drop (length (placeholder k)) s))"
      using sub by (rule IH)
    then have "sublist (placeholder n)
                 (v @ replace_all (placeholder k) v (drop (length (placeholder k)) s))"
      by (meson sublist_append_leftI sublist_order.order_trans)
    then show ?thesis
      using True replace_all_match[OF placeholder_not_Nil, of k c cs v] by (simp add: cs)
  next
    case False
    then have skip: "replace_all (placeholder k) v s = c # replace_all (placeholder k) v cs"
      using replace_all_skip[OF placeholder_not_Nil, of k c cs v] by (simp add: cs)
    from "1.prems" have "prefix (placeholder n) (c # cs) \<or> sublist (placeholder n) cs"
      by (simp add: cs sublist_Cons_right)
    then show ?thesis
    proof
      assume "prefix (placeholder n) (c # cs)"
      then obtain r where r: "s = placeholder n @ r"
        by (auto simp: prefix_def cs)
      show ?thesis
        unfolding r replace_all_other[OF assms]
        by (metis append_Nil sublist_appendI)
    next
      assume "sublist (placeholder n) cs"
      then have "sublist (placeholder n) (replace_all (placeholder k) v cs)"
        by (intro IH) (simp_all add: cs)
      then show ?thesis
        by (simp add: skip sublist_Cons_right)
    qed
  qed
qed

lemma replace_all_puts_value:
  "pat \<noteq> [] \<Longrightarrow> sublist pat s \<Longrightarrow> sublist v (replace_all pat v s)"
proof (induction s)
  case Nil
  then show ?case by simp
next
  case (Cons c cs)
  show ?case
  proof (cases "prefix pat (c # cs)")
    case True
    then show ?thesis
      using replace_all_match[OF Cons.prems(1) True, of v]
      by (metis append_Nil sublist_appendI)
  next
    case False
    then have "sublist pat cs"
      using Cons.prems(2) by (simp add: sublist_Cons_right)
    then have "sublist v (replace_all pat v cs)"
      using Cons.prems(1) by (intro Cons.IH)
    then show ?thesis
      using replace_all_skip[OF Cons.prems(1) False, of v] by (simp add: sublist_Cons_right)
  qed
qed

lemma render_append:
  "render t (vars @ [(k, v)]) = replace_all (placeholder k) v (render t vars)"
  by (simp add: render_def replace_all_def)

lemma render_keeps_placeholder:
  assumes "name_ok n"
  shows "list_all (\<lambda>(k, v). name_ok k \<and> k \<noteq> n) vars \<Longrightarrow> sublist (placeholder n) t \<Longrightarrow>
         sublist (placeholder n) (render t vars)"
proof (induction vars arbitrary: t)
  case Nil
  then show ?case by (simp add: render_Nil)
next
  case (Cons kv rest)
  obtain k v where kv: "kv = (k, v)"
    by (cases kv)
  have "name_ok k" and "n \<noteq> k" and rest: "list_all (\<lambda>(k, v). name_ok k \<and> k \<noteq> n) rest"
    using Cons.prems(1) by (auto simp: kv)
  then have "sublist (placeholder n) (replace_all (placeholder k) v t)"
    using Cons.prems(2) assms by (intro replace_all_keeps_other)
  then show ?case
    unfolding kv render_Cons using rest by (intro Cons.IH)
qed

text \<open>
  The value of the last key is in the rendered text whenever the template has the
  key's placeholder, whatever the values of the keys before it.
\<close>

lemma render_last_value:
  assumes "name_ok n" and "list_all (\<lambda>(k, v). name_ok k \<and> k \<noteq> n) vars"
    and "str_includes t (placeholder n)"
  shows "str_includes (render t (vars @ [(n, v)])) v"
proof -
  have "sublist (placeholder n) (render t vars)"
    using assms by (intro render_keeps_placeholder) (simp_all add: str_includes_def)
  then show ?thesis
    unfolding render_append str_includes_def
    by (rule replace_all_puts_value[OF placeholder_not_Nil])
qed

lemma categoryHtml_cards:
  assumes "str_includes (categoryTemplate T) ''{{GALLERY_CARDS}}''"
  shows "str_includes (categoryHtml T people categories cat) (cardsHtml people cat)"
proof -
  let ?vars = "[(''HEAD'', buildHead T ''''), (''NAV'', buildNav T False False),
                (''FOOTER'', partial_footer T), (''SCRIPTS'', partial_scripts T),
                (''CATEGORY_LIST_INLINE'', categoryListInline categories)]"
  have vars: "categoryVars T people categories cat
                = ?vars @ [(''GALLERY_CARDS'', cardsHtml people cat)]"
    by (simp add: categoryVars_def)
  have "str_includes (categoryTemplate T) (placeholder ''GALLERY_CARDS'')"
    using assms by (simp add: placeholder_def)
  then show ?thesis
    unfolding categoryHtml_def vars
    by (intro render_last_value) (simp_all add: name_ok_def)
qed
section \<open>Facts about the lookup by post id\<close>

lemma find_append:
  "find P (xs @ ys) = (case find P xs of None \<Rightarrow> find P ys | Some x \<Rightarrow> Some x)"
  by (induction xs) auto

lemma find_distinct:
  "distinct (map f xs) \<Longrightarrow> x \<in> set xs \<Longrightarrow> find (\<lambda>y. f y = f x) xs = Some x"
  by (induction xs) (auto simp: rev_image_eqI)

lemma foldl_upd_lookup:
  "foldl (\<lambda>m p. m(key p \<mapsto> p)) m ps i
     = (case find (\<lambda>p. key p = i) (rev ps) of Some p \<Rightarrow> Some p | None \<Rightarrow> m i)"
proof (induction ps arbitrary: m)
  case Nil
  then show ?case by simp
next
  case (Cons p ps)
  then show ?case
    by (simp add: find_append split: option.splits)
qed

lemma peopleByPostId_find:
  "peopleByPostId people i = find (\<lambda>p. post_id p = i) (rev people)"
  by (simp add: peopleByPostId_def foldl_upd_lookup split: option.splits)

lemma find_Some_holds: "find P xs = Some x \<Longrightarrow> x \<in> set xs \<and> P x"
  by (induction xs) (auto split: if_splits)

lemma peopleByPostId_Some:
  "peopleByPostId people i = Some p \<Longrightarrow> p \<in> set people \<and> post_id p = i"
  using find_Some_holds[of "\<lambda>p. post_id p = i" "rev people" p]
  by (simp add: peopleByPostId_find)

lemma peopleByPostId_None:
  "(peopleByPostId people i = None) = (i \<notin> post_id ` set people)"
  by (auto simp: peopleByPostId_find find_None_iff)

lemma peopleByPostId_last:
  assumes "people = xs @ p # zs" and "\<forall>q\<in>set zs. post_id q \<noteq> post_id p"
  shows "peopleByPostId people (post_id p) = Some p"
proof -
  have "find (\<lambda>q. post_id q = post_id p) (rev zs) = None"
    using assms(2) by (simp add: find_None_iff)
  then show ?thesis
    by (simp add: peopleByPostId_find assms(1) find_append)
qed

lemma set_catPeople:
  "set (catPeople people cat)
     = {p. \<exists>i\<in>set (post_ids cat). peopleByPostId people i = Some p}"
proof -
  have "set (map the (filter (\<lambda>r. r \<noteq> None) (map f ids)))
          = {p. \<exists>i\<in>set ids. f i = Some p}" for f :: "nat \<Rightarrow> person option" and ids
    by (induction ids) auto
  then show ?thesis
    by (simp add: catPeople_def)
qed

lemma map_post_id_catPeople:
  "map post_id (catPeople people cat)
     = filter (\<lambda>i. i \<in> post_id ` set people) (post_ids cat)"
proof -
  have "map post_id (map the (filter (\<lambda>r. r \<noteq> None) (map (peopleByPostId people) ids)))
          = filter (\<lambda>i. i \<in> post_id ` set people) ids" for ids
  proof (induction ids)
    case Nil
    then show ?case by simp
  next
    case (Cons i ids)
    show ?case
    proof (cases "peopleByPostId people i")
      case None
      then show ?thesis
        using Cons by (simp add: peopleByPostId_None)
    next
      case (Some p)
      then have "post_id p = i" and "i \<in> post_id ` set people"
        using peopleByPostId_Some[OF Some] by auto
      then show ?thesis
        using Cons Some by simp
    qed
  qed
  then show ?thesis
    by (simp add: catPeople_def)
qed

section \<open>Facts about the output tree, inclusion and the error count\<close>

lemma map_of_filter_other:
  "q \<noteq> p \<Longrightarrow> map_of (filter (\<lambda>e. fst e \<noteq> p) out) q = map_of out q"
  by (induction out) auto

lemma readFile_write:
  "readFile (writeFileSync p c out) q = (if q = p then Some c else readFile out q)"
  by (simp add: readFile_def writeFileSync_def map_of_filter_other)

lemma readFile_fold_write:
  "readFile (foldl (\<lambda>t x. writeFileSync (f x) (g x) t) out xs) q
     = (case find (\<lambda>x. f x = q) (rev xs) of
          Some x \<Rightarrow> Some (g x)
        | None \<Rightarrow> readFile out q)"
proof (induction xs arbitrary: out)
  case Nil
  then show ?case by simp
next
  case (Cons x xs)
  then show ?case
    by (simp add: find_append readFile_write split: option.splits)
qed

lemma readFile_fold_write_distinct:
  assumes "distinct (map f xs)" and "x \<in> set xs"
  shows "readFile (foldl (\<lambda>t x. writeFileSync (f x) (g x) t) out xs) (f x) = Some (g x)"
proof -
  have "find (\<lambda>y. f y = f x) (rev xs) = Some x"
    using assms by (intro find_distinct) (simp_all add: rev_map[symmetric])
  then show ?thesis
    by (simp add: readFile_fold_write)
qed

lemma distinct_categoryPath:
  "distinct (map cat_slug cats) \<Longrightarrow> distinct (map categoryPath cats)"
  by (induction cats) (auto simp: categoryPath_def)


lemma readFile_build_category:
  assumes "distinct (map cat_slug (site_categories s))" and "cat \<in> set (site_categories s)"
  shows "readFile (build s old) (categoryPath cat)
           = Some (categoryHtml (site_templates s) (site_people s) (site_categories s) cat)"
proof -
  have about: "categoryPath cat \<noteq> [''about'', ''index.html'']"
    and submit: "categoryPath cat \<noteq> [''submit'', ''index.html'']"
    by (simp_all add: categoryPath_def)
  have "readFile (writeCategoryPages (site_templates s) (site_people s) (site_categories s) out)
          (categoryPath cat)
        = Some (categoryHtml (site_templates s) (site_people s) (site_categories s) cat)" for out
    unfolding writeCategoryPages_def
    by (rule readFile_fold_write_distinct[OF distinct_categoryPath[OF assms(1)] assms(2)])
  then show ?thesis
    using about submit by (simp add: build_def Let_def readFile_write)
qed


lemma sublist_join: "x \<in> set xs \<Longrightarrow> sublist x (join_str sep xs)"
proof (induction sep xs rule: join_str.induct)
  case (1 sep)
  then show ?case by simp
next
  case (2 sep y)
  then show ?case by simp
next
  case (3 sep y z zs)
  show ?case
  proof (cases "x = y")
    case True
    then show ?thesis by simp
  next
    case False
    then have "sublist x (join_str sep (z # zs))"
      using 3 by simp
    then show ?thesis
      by (metis join_str.simps(3) sublist_order.order_trans sublist_append_leftI append_assoc)
  qed
qed

lemma sublist_concat_map: "t \<in> set ts \<Longrightarrow> sublist (f t) (concat (map f ts))"
proof (induction ts)
  case Nil
  then show ?case by simp
next
  case (Cons a ts)
  show ?case
  proof (cases "t = a")
    case True
    then show ?thesis by simp
  next
    case False
    then have "sublist (f t) (concat (map f ts))"
      using Cons by simp
    then show ?thesis
      by (metis concat.simps(2) list.simps(9) sublist_order.order_trans sublist_append_leftI)
  qed
qed

lemma render_includes_value:
  assumes "list_all token_ok toks" and "vars_ok vars"
    and "Ph n \<in> set toks" and "map_of vars n = Some v"
  shows "str_includes (render (flatten toks) vars) v"
proof -
  have "subst vars (Ph n) = v"
    using assms(4) by simp
  then have "sublist v (concat (map (subst vars) toks))"
    using sublist_concat_map[OF assms(3), of "subst vars"] by simp
  then show ?thesis
    by (simp add: str_includes_def render_tokens[OF assms(1,2)])
qed

lemma categoryCard_marker: "str_includes (categoryCard p) (card_marker (post_id p))"
  unfolding str_includes_def categoryCard_def
  by (metis sublist_appendI)

text \<open>The card of a category page, written out.\<close>

lemma categoryCard_text:
  "categoryCard p
     = ''  <div id='' @ quoted (''post-'' @ show_nat (post_id p)) @ '' class=''
          @ quoted ''techie-gallery col-lg-3 col-md-4 col-sm-6'' @ ''>'' @ [nl]
        @ ''    <a class='' @ quoted ''techie-thumbnail'' @ '' href=''
          @ quoted (''/'' @ slug p @ ''/'') @ ''>'' @ [nl]
        @ ''      <img src='' @ quoted (''/d1lhy388c2xgxf/thumbnails/'' @ thumbnail p)
          @ '' width='' @ quoted ''280px'' @ '' height='' @ quoted ''390px'' @ ''>'' @ [nl]
        @ ''      <p class='' @ quoted ''name'' @ ''>'' @ name p @ ''</p>'' @ [nl]
        @ ''      <p class='' @ quoted ''title'' @ ''>'' @ title p @ ''&nbsp;</p>'' @ [nl]
        @ ''    </a>'' @ [nl]
        @ ''  </div>''"
  by (simp add: categoryCard_def card_marker_def)

lemma str_includes_trans:
  "str_includes a b \<Longrightarrow> str_includes b c \<Longrightarrow> str_includes a c"
  unfolding str_includes_def by (meson sublist_order.order_trans)

lemma errors_check: "errors (check c r) = errors r + (if c then 0 else 1)"
  by (simp add: check_def)

lemma errors_fold_check:
  "errors (foldl (\<lambda>r' x. check (P x) r') r xs) = errors r + length (filter (\<lambda>x. \<not> P x) xs)"
  by (induction xs arbitrary: r) (simp_all add: errors_check)

lemma fileAt_onDisk: "fileAt (onDisk w out) p = readFile out p"
  by (simp add: onDisk_def readFile_def)

lemma checkCategory_file:
  "fileAt d (categoryPath cat) = Some page \<Longrightarrow>
   completed (checkCategory d r cat)
   \<and> errors (finalReport (checkCategory d r cat))
       = errors r + length (filter (\<lambda>pid. \<not> str_includes page (card_marker pid)) (post_ids cat))"
  by (simp add: checkCategory_def Let_def existsSync_def completed_def finalReport_def
      errors_fold_check errors_check)



lemma store_ok_scenario: "store_ok scenario_site"
  by (simp add: store_ok_def scenario_site_def ada_def backend_def frontend_def
      page_slug_ok_def reserved_names_def)

section \<open>Facts about the extraction loop\<close>

lemma extractStep_missing:
  "fs (filePath (entry_slug e)) = None \<Longrightarrow>
   extractStep pf fs titles (people, log) e
     = (people, log @ [''  WARNING: '' @ filePath (entry_slug e) @ '' not found, skipping''])"
  by (simp add: extractStep_def parsePersonPage_def)

lemma extractStep_found:
  "fs (filePath (entry_slug e)) = Some html \<Longrightarrow>
   extractStep pf fs titles (people, log) e
     = (people @ [mergeEntry titles e
                    ((pf html)\<lparr>slug := entry_slug e, post_id := pagePostId html\<rparr>)], log)"
  by (simp add: extractStep_def parsePersonPage_def)

lemma extract_fold:
  "foldl (extractStep pf fs titles) (people, log) entries =
     (people @ concat (map (\<lambda>e. case fs (filePath (entry_slug e)) of
                                   None \<Rightarrow> []
                                 | Some html \<Rightarrow>
                                     [mergeEntry titles e
                                        ((pf html)\<lparr>slug := entry_slug e, post_id := pagePostId html\<rparr>)])
                        entries),
      log @ concat (map (\<lambda>e. case fs (filePath (entry_slug e)) of
                                None \<Rightarrow> [''  WARNING: '' @ filePath (entry_slug e) @ '' not found, skipping'']
                              | Some html \<Rightarrow> [])
                     entries))"
proof (induction entries arbitrary: people log)
  case Nil
  then show ?case by simp
next
  case (Cons e es)
  show ?case
  proof (cases "fs (filePath (entry_slug e))")
    case None
    then show ?thesis
      by (simp add: Cons.IH extractStep_missing)
  next
    case (Some html)
    then show ?thesis
      by (simp add: Cons.IH extractStep_found)
  qed
qed

lemma slug_mergeEntry: "slug (mergeEntry titles e p) = slug p"
  by (simp add: mergeEntry_def)

lemma post_id_mergeEntry:
  "post_id (mergeEntry titles e p) = (if post_id p = 0 then entry_post_id e else post_id p)"
  by (simp add: mergeEntry_def)

section \<open>The verifier reports dangling ids (C1)\<close>

text \<open>
  C1, as amended. For a Store with unique plain slugs and a category template of literal
  text and placeholders that has the \<open>GALLERY_CARDS\<close> placeholder (no substituted value
  containing two opening braces in a row or ending in one), the category page holds the
  card of every person its ids resolve to, and the verifier, run on the disk the build
  leaves (whatever lies beside the files written), reads the page and counts one fatal
  error for each entry of \<open>post_ids\<close> whose card marker is not in the page. Every id
  it reports is an id without a record.
\<close>

theorem verifier_counts_missing_markers:
  fixes s :: site and cat :: category
  defines "page \<equiv> categoryHtml (site_templates s) (site_people s) (site_categories s) cat"
  assumes "store_ok s" and "cat \<in> set (site_categories s)"
    and "categoryTemplate (site_templates s) = flatten toks"
    and "list_all token_ok toks"
    and "Ph ''GALLERY_CARDS'' \<in> set toks"
    and "vars_ok (categoryVars (site_templates s) (site_people s) (site_categories s) cat)"
  shows "readFile (build s old) (categoryPath cat) = Some page
         \<and> (\<forall>p\<in>set (catPeople (site_people s) cat). str_includes page (categoryCard p))
         \<and> completed (checkCategory (onDisk w (build s old)) r cat)
         \<and> errors (finalReport (checkCategory (onDisk w (build s old)) r cat))
             = errors r + length (filter (\<lambda>pid. \<not> str_includes page (card_marker pid))
                                    (post_ids cat))
         \<and> (\<forall>pid\<in>set (post_ids cat).
               \<not> str_includes page (card_marker pid) \<longrightarrow> pid \<notin> post_id ` set (site_people s))"
proof -
  let ?T = "site_templates s" and ?P = "site_people s" and ?C = "site_categories s"
  have "distinct (map cat_slug ?C)"
    using assms(2) by (simp add: store_ok_def)
  then have written: "readFile (build s old) (categoryPath cat) = Some page"
    unfolding page_def using assms(3) by (rule readFile_build_category)
  have "map_of (categoryVars ?T ?P ?C cat) ''GALLERY_CARDS'' = Some (cardsHtml ?P cat)"
    by (simp add: categoryVars_def)
  then have fragment: "str_includes page (cardsHtml ?P cat)"
    unfolding page_def categoryHtml_def assms(4)
    by (rule render_includes_value[OF assms(5) assms(7)[unfolded assms(4)] assms(6)])
  have card: "str_includes page (categoryCard p)" if "p \<in> set (catPeople ?P cat)" for p
  proof -
    have "str_includes (cardsHtml ?P cat) (categoryCard p)"
      using that by (simp add: cardsHtml_def str_includes_def sublist_join)
    with fragment show ?thesis
      by (rule str_includes_trans)
  qed
  have dangling: "pid \<notin> post_id ` set ?P"
    if "pid \<in> set (post_ids cat)" and absent: "\<not> str_includes page (card_marker pid)" for pid
  proof
    assume "pid \<in> post_id ` set ?P"
    then obtain p where p: "peopleByPostId ?P pid = Some p"
      using peopleByPostId_None[of ?P pid] by auto
    then have "p \<in> set (catPeople ?P cat)" and "post_id p = pid"
      using that(1) peopleByPostId_Some[OF p] by (auto simp: set_catPeople)
    then have "str_includes page (card_marker pid)"
      using card categoryCard_marker str_includes_trans by blast
    with absent show False ..
  qed
  have "fileAt (onDisk w (build s old)) (categoryPath cat) = Some page"
    using written by (simp add: fileAt_onDisk)
  then show ?thesis
    using written card dangling checkCategory_file by blast
qed

theorem verifier_counts_missing_markers_witness:
  "store_ok scenario_site \<and> frontend \<in> set (site_categories scenario_site)
   \<and> vars_ok (categoryVars scenario_templates [ada] [backend, frontend] frontend)
   \<and> str_includes (categoryHtml scenario_templates [ada] [backend, frontend] frontend)
        (card_marker 42)
   \<and> \<not> str_includes (categoryHtml scenario_templates [ada] [backend, frontend] frontend)
        (card_marker 99)
   \<and> errors (finalReport (checkCategory (onDisk nothingElse (build scenario_site []))
                              \<lparr>errors = 0, warnings = 0\<rparr> frontend)) = 1"
proof -
  let ?toks = "[Ph ''HEAD'', Ph ''CATEGORY_LIST_INLINE'', Ph ''GALLERY_CARDS'']"
  let ?page = "categoryHtml scenario_templates [ada] [backend, frontend] frontend"
  have site: "site_templates scenario_site = scenario_templates"
    "site_people scenario_site = [ada]" "site_categories scenario_site = [backend, frontend]"
    by (simp_all add: scenario_site_def)
  have mem: "frontend \<in> set (site_categories scenario_site)"
    by (simp add: site)
  have tpl: "categoryTemplate (site_templates scenario_site) = flatten ?toks"
    by (simp add: site scenario_templates_def flatten_def placeholder_def)
  have toks: "list_all token_ok ?toks"
    by (simp add: name_ok_def)
  have ph: "Ph ''GALLERY_CARDS'' \<in> set ?toks"
    by simp
  have vars: "vars_ok (categoryVars scenario_templates [ada] [backend, frontend] frontend)"
    by code_simp
  have vars': "vars_ok (categoryVars (site_templates scenario_site) (site_people scenario_site)
                          (site_categories scenario_site) frontend)"
    using vars by (simp only: site)
  have m42: "str_includes ?page (card_marker 42)"
    by code_simp
  have m99: "\<not> str_includes ?page (card_marker 99)"
    by code_simp
  have "errors (finalReport (checkCategory (onDisk nothingElse (build scenario_site []))
                              \<lparr>errors = 0, warnings = 0\<rparr> frontend))
          = 0 + length (filter (\<lambda>pid. \<not> str_includes ?page (card_marker pid)) (post_ids frontend))"
    using verifier_counts_missing_markers[OF store_ok_scenario mem tpl toks ph vars',
        where w = nothingElse and old = "[]" and r = "\<lparr>errors = 0, warnings = 0\<rparr>"]
    by (simp only: site) simp
  then have "errors (finalReport (checkCategory (onDisk nothingElse (build scenario_site []))
                              \<lparr>errors = 0, warnings = 0\<rparr> frontend)) = 1"
    using m42 m99 by (simp add: frontend_def)
  then show ?thesis
    using store_ok_scenario mem vars m42 m99 by blast
qed


text \<open>
  The claim as written fails on the scenario itself: the page of \<open>frontend\<close> holds
  the one card of id 42, and the verifier reports one fatal error for it (the marker of
  id 99 is missing), so the whole run ends with status 1.
\<close>

theorem verifier_reports_dangling_id_counterexample:
  "catPeople [ada] frontend = [ada]
   \<and> errors (finalReport (checkCategory (onDisk nothingElse (build scenario_site []))
                              \<lparr>errors = 0, warnings = 0\<rparr> frontend)) = 1
   \<and> exitStatus (verify [ada] [backend, frontend] (onDisk nothingElse (build scenario_site []))) = 1"
  by code_simp


section \<open>The verifier's exit status (C2)\<close>

lemma errors_check_mono: "errors r \<le> errors (check c r)"
  by (simp add: check_def)

lemma errors_checkStatic:
  "\<not> existsSync d [''index.html''] \<Longrightarrow> 0 < errors (checkStatic d r)"
proof -
  assume missing: "\<not> existsSync d [''index.html'']"
  let ?r1 = "check (existsSync d [''index.html'']) r"
  have "0 < errors ?r1"
    using missing by (simp add: check_def)
  also have "errors ?r1 \<le> errors (checkStatic d r)"
    unfolding checkStatic_def Let_def
    by (meson errors_check_mono order_trans)
  finally show ?thesis .
qed

lemma errors_warn: "errors (warn r) = errors r"
  by (simp add: warn_def)

lemma errors_checkRef: "errors (snd (checkRef d st ref)) = errors (snd st)"
  by (cases st) (simp add: checkRef_def errors_warn)

lemma errors_fold_checkRef:
  "errors (snd (foldl (\<lambda>st' m. checkRef d st' (f m)) st ms)) = errors (snd st)"
  by (induction ms arbitrary: st) (simp_all add: errors_checkRef)

lemma errors_checkHtmlRefs: "errors (snd (checkHtmlRefs d st html)) = errors (snd st)"
  by (simp add: checkHtmlRefs_def errors_fold_checkRef)

lemma errors_fold_checkHtmlRefs:
  "errors (snd (foldl (checkHtmlRefs d) st htmls)) = errors (snd st)"
  by (induction htmls arbitrary: st) (simp_all add: errors_checkHtmlRefs)

lemma errors_checkCssRefs:
  "errors (case checkCssRefs d st of Inl r \<Rightarrow> r | Inr st' \<Rightarrow> snd st') = errors (snd st)"
  by (simp add: checkCssRefs_def errors_fold_checkRef split: option.splits)

lemma errors_checkRemnants: "errors (checkRemnants r html) = errors r"
proof -
  have "errors (foldl (\<lambda>r' w. if str_includes html w then warn r' else r') r ws) = errors r"
    for ws
    by (induction ws arbitrary: r) (simp_all add: errors_warn)
  then show ?thesis
    by (simp add: checkRemnants_def)
qed

lemma errors_fold_checkRemnants: "errors (foldl checkRemnants r htmls) = errors r"
  by (induction htmls arbitrary: r) (simp_all add: errors_checkRemnants)

lemma errors_qualityChecks: "errors (finalReport (qualityChecks d r)) = errors r"
proof -
  let ?st5 = "foldl (checkHtmlRefs d) ([], r) (htmlFileTexts d)"
  have st5: "errors (snd ?st5) = errors r"
    by (simp add: errors_fold_checkHtmlRefs)
  show ?thesis
  proof (cases "checkCssRefs d ?st5")
    case (Inl r')
    then show ?thesis
      using errors_checkCssRefs[of d ?st5] st5
      by (simp add: qualityChecks_def Let_def finalReport_def)
  next
    case (Inr st6)
    then show ?thesis
      using errors_checkCssRefs[of d ?st5] st5
      by (simp add: qualityChecks_def Let_def finalReport_def errors_fold_checkRemnants)
  qed
qed

lemma completed_checkPerson:
  "completed (checkPerson d r p) = (\<not> directoryAt d (personPath p))"
  by (auto simp: checkPerson_def Let_def existsSync_def completed_def directoryAt_def
      split: option.splits)

lemma completed_checkCategory:
  "completed (checkCategory d r cat) = (\<not> directoryAt d (categoryPath cat))"
  by (auto simp: checkCategory_def Let_def existsSync_def completed_def directoryAt_def
      split: option.splits)

lemma completed_forEach:
  assumes "\<And>r x. completed (f r x) = (\<not> bad x)"
  shows "completed (forEach f r xs) = (\<not> list_ex bad xs)"
proof (induction xs arbitrary: r)
  case Nil
  show ?case
    by (simp add: completed_def)
next
  case (Cons x xs)
  show ?case
  proof (cases "f r x")
    case (Inl r')
    then have "bad x"
      using assms[of r x] by (simp add: completed_def)
    then show ?thesis
      using Inl by (simp add: completed_def)
  next
    case (Inr r')
    then have "\<not> bad x"
      using assms[of r x] by (simp add: completed_def)
    then show ?thesis
      using Inr Cons.IH[of r'] by simp
  qed
qed

lemma completed_qualityChecks:
  "completed (qualityChecks d r) = (\<not> directoryAt d [''assets'', ''css'', ''techies.css''])"
  by (auto simp: qualityChecks_def Let_def checkCssRefs_def existsSync_def completed_def
      directoryAt_def split: option.splits)

lemma not_completed: "\<not> completed run \<Longrightarrow> \<exists>r. run = Inl r"
  by (cases run) (simp_all add: completed_def)

lemma is_completed: "completed run \<Longrightarrow> \<exists>r. run = Inr r"
  by (cases run) (simp_all add: completed_def)

lemma completed_verify:
  "completed (verify people categories d)
     = (\<not> readsDirectory people categories d \<and> fileAt d [''index.html''] \<noteq> None)"
proof -
  let ?r0 = "\<lparr>errors = 0, warnings = 0\<rparr>"
  have people: "completed (forEach (checkPerson d) r people)
                  = (\<not> list_ex (\<lambda>p. directoryAt d (personPath p)) people)" for r
    by (rule completed_forEach) (rule completed_checkPerson)
  have cats: "completed (forEach (checkCategory d) r categories)
                = (\<not> list_ex (\<lambda>cat. directoryAt d (categoryPath cat)) categories)" for r
    by (rule completed_forEach) (rule completed_checkCategory)
  show ?thesis
  proof (cases "forEach (checkPerson d) ?r0 people")
    case (Inl r)
    then show ?thesis
      using people[of ?r0] by (simp add: verify_def readsDirectory_def completed_def)
  next
    case r1: (Inr r1)
    then have nop: "\<not> list_ex (\<lambda>p. directoryAt d (personPath p)) people"
      using people[of ?r0] by (simp add: completed_def)
    show ?thesis
    proof (cases "forEach (checkCategory d) r1 categories")
      case (Inl r)
      then show ?thesis
        using r1 cats[of r1] by (simp add: verify_def readsDirectory_def completed_def)
    next
      case r2: (Inr r2)
      then have noc: "\<not> list_ex (\<lambda>cat. directoryAt d (categoryPath cat)) categories"
        using cats[of r1] by (simp add: completed_def)
      show ?thesis
      proof (cases "fileAt d [''index.html'']")
        case None
        then show ?thesis
          using r1 r2 by (simp add: verify_def Let_def completed_def)
      next
        case (Some homepage)
        then have "\<not> directoryAt d [''index.html'']"
          by (simp add: directoryAt_def)
        then show ?thesis
          using r1 r2 Some nop noc
          by (simp add: verify_def Let_def readsDirectory_def completed_qualityChecks)
      qed
    qed
  qed
qed

lemma errors_verify_no_homepage:
  assumes "\<not> readsDirectory people categories d" and "fileAt d [''index.html''] = None"
  shows "0 < errors (finalReport (verify people categories d))"
proof -
  let ?r0 = "\<lparr>errors = 0, warnings = 0\<rparr>"
  have "completed (forEach (checkPerson d) ?r0 people)"
    using assms(1) completed_forEach[of "checkPerson d", OF completed_checkPerson]
    by (simp add: readsDirectory_def)
  then obtain r1 where r1: "forEach (checkPerson d) ?r0 people = Inr r1"
    using is_completed by blast
  have "completed (forEach (checkCategory d) r1 categories)"
    using assms(1) completed_forEach[of "checkCategory d", OF completed_checkCategory]
    by (simp add: readsDirectory_def)
  then obtain r2 where r2: "forEach (checkCategory d) r1 categories = Inr r2"
    using is_completed by blast
  have "\<not> dirAt d [''index.html'']"
    using assms by (simp add: readsDirectory_def directoryAt_def)
  then have "\<not> existsSync d [''index.html'']"
    using assms(2) by (simp add: existsSync_def)
  then have "0 < errors (checkStatic d r2)"
    by (rule errors_checkStatic)
  then show ?thesis
    using r1 r2 assms(2) by (simp add: verify_def Let_def finalReport_def)
qed

text \<open>
  C2, as amended. The verifier's process ends with a non-zero status exactly when its
  count of fatal errors is greater than zero when the run ends, or the run meets a
  directory at a path it reads as a file (the page of a listed person or category, the
  homepage, the stylesheet): reading it throws, nothing catches the exception, and the
  count may then still be zero. A run reaches its last line exactly when it meets no
  such directory and the homepage is a file; for such a run the status is non-zero
  exactly when the count of fatal errors is greater than zero. The passes that only
  warn leave the count of fatal errors as they found it, so no number of warnings
  changes the status.
\<close>

theorem exit_status_of_run:
  "(exitStatus (verify people categories d) \<noteq> 0)
     = (0 < errors (finalReport (verify people categories d))
        \<or> readsDirectory people categories d)
   \<and> completed (verify people categories d)
       = (\<not> readsDirectory people categories d \<and> fileAt d [''index.html''] \<noteq> None)
   \<and> (completed (verify people categories d) \<longrightarrow>
        (exitStatus (verify people categories d) \<noteq> 0)
          = (0 < errors (finalReport (verify people categories d))))
   \<and> errors (finalReport (qualityChecks d r)) = errors r
   \<and> exitStatus (Inr (r\<lparr>warnings := w\<rparr>)) = exitStatus (Inr r)"
proof (intro conjI)
  let ?run = "verify people categories d"
  show "(exitStatus ?run \<noteq> 0) = (0 < errors (finalReport ?run) \<or> readsDirectory people categories d)"
  proof (cases "completed ?run")
    case True
    then obtain r' where "?run = Inr r'"
      using is_completed by blast
    then show ?thesis
      using True completed_verify[of people categories d]
      by (simp add: exitStatus_def finalReport_def)
  next
    case False
    then obtain r' where stopped: "?run = Inl r'"
      using not_completed by blast
    have "0 < errors (finalReport ?run) \<or> readsDirectory people categories d"
      using False completed_verify[of people categories d] errors_verify_no_homepage
      by blast
    then show ?thesis
      using stopped by (simp add: exitStatus_def)
  qed
next
  show "completed (verify people categories d)
          = (\<not> readsDirectory people categories d \<and> fileAt d [''index.html''] \<noteq> None)"
    by (rule completed_verify)
next
  let ?run = "verify people categories d"
  show "completed ?run \<longrightarrow> (exitStatus ?run \<noteq> 0) = (0 < errors (finalReport ?run))"
  proof
    assume "completed ?run"
    then obtain r' where "?run = Inr r'"
      using is_completed by blast
    then show "(exitStatus ?run \<noteq> 0) = (0 < errors (finalReport ?run))"
      by (simp add: exitStatus_def finalReport_def)
  qed
next
  show "errors (finalReport (qualityChecks d r)) = errors r"
    by (rule errors_qualityChecks)
next
  show "exitStatus (Inr (r\<lparr>warnings := w\<rparr>)) = exitStatus (Inr r)"
    by (simp add: exitStatus_def)
qed

text \<open>
  A run with a warning and no fatal error: the site with the one category \<open>backend\<close>
  references a stylesheet that is not among its assets.
\<close>

theorem exit_status_of_run_witness:
  "completed (verify [ada] [backend]
                (onDisk nothingElse (build (scenario_site\<lparr>site_categories := [backend]\<rparr>) [])))
   \<and> verify [ada] [backend]
        (onDisk nothingElse (build (scenario_site\<lparr>site_categories := [backend]\<rparr>) []))
       = Inr \<lparr>errors = 0, warnings = 1\<rparr>
   \<and> exitStatus (verify [ada] [backend]
        (onDisk nothingElse (build (scenario_site\<lparr>site_categories := [backend]\<rparr>) []))) = 0
   \<and> \<not> readsDirectory [ada] [backend]
        (onDisk nothingElse (build (scenario_site\<lparr>site_categories := [backend]\<rparr>) []))"
proof -
  let ?d = "onDisk nothingElse (build (scenario_site\<lparr>site_categories := [backend]\<rparr>) [])"
  have run: "verify [ada] [backend] ?d = Inr \<lparr>errors = 0, warnings = 1\<rparr>"
    by code_simp
  have finished: "completed (verify [ada] [backend] ?d)"
    by (simp only: run) (simp add: completed_def)
  have status: "exitStatus (verify [ada] [backend] ?d) = 0"
    by (simp only: run) (simp add: exitStatus_def)
  have nodir: "\<not> readsDirectory [ada] [backend] ?d"
    using exit_status_of_run[of "[ada]" "[backend]" ?d] finished by blast
  show ?thesis
    by (intro conjI) (rule finished run status nodir)+
qed

text \<open>
  The claim as written fails where the homepage's path is a directory: every static
  file is found, no check fails, and reading the homepage throws, so the process ends
  with status 1 while the count of fatal errors is 0.
\<close>

theorem exit_status_directory_counterexample:
  "verify [] [] (onDisk nothingElse homepage_is_directory) = Inl \<lparr>errors = 0, warnings = 0\<rparr>
   \<and> exitStatus (verify [] [] (onDisk nothingElse homepage_is_directory)) = 1
   \<and> errors (finalReport (verify [] [] (onDisk nothingElse homepage_is_directory))) = 0"
  by code_simp
section \<open>Placeholder substitution is sequential (C3)\<close>

text \<open>
  C3, as amended. For a template made of literal text and placeholders with brace-free
  names, where neither the literal text nor any substituted value contains two opening
  braces in a row or ends in an opening brace, \<open>render\<close> is the literal one-pass
  replacement: every occurrence of every recognised placeholder is replaced by its
  value, and unrecognised placeholders and all other text stay untouched. The proviso is
  needed because \<open>render\<close> works through the entries one after the other on the
  text produced so far.
\<close>

theorem render_substitutes_tokens:
  assumes "list_all token_ok toks" and "vars_ok vars"
  shows "render (flatten toks) vars = concat (map (subst vars) toks)"
proof -
  from assms show ?thesis
    by (rule render_tokens)
qed

theorem render_substitutes_tokens_witness:
  "list_all token_ok [Lit ''a{b'', Ph ''NAME'', Ph ''X'', Lit ''-'', Ph ''NAME'']
   \<and> vars_ok [(''NAME'', ''Ada''), (''ROLE'', ''dev'')]
   \<and> render ''a{b{{NAME}}{{X}}-{{NAME}}'' [(''NAME'', ''Ada''), (''ROLE'', ''dev'')]
       = ''a{bAda{{X}}-Ada''"
proof -
  have t: "list_all token_ok [Lit ''a{b'', Ph ''NAME'', Ph ''X'', Lit ''-'', Ph ''NAME'']"
    by (simp add: name_ok_def)
  have v: "vars_ok [(''NAME'', ''Ada''), (''ROLE'', ''dev'')]"
    by (simp add: vars_ok_def name_ok_def)
  show ?thesis
    using t v render_substitutes_tokens[OF t v]
    by (simp add: flatten_def placeholder_def)
qed

text \<open>
  The claim as written fails: the value substituted for \<open>A\<close> contains the placeholder
  of the later key \<open>B\<close>, and that placeholder is substituted in turn. One-pass
  replacement would leave it.
\<close>

theorem render_recursive_counterexample:
  "render ''{{A}}'' [(''A'', ''{{B}}''), (''B'', ''x'')] = ''x''
   \<and> concat (map (subst [(''A'', ''{{B}}''), (''B'', ''x'')]) [Ph ''A'']) = ''{{B}}''"
  by code_simp

section \<open>Dangling ids are dropped at render time (C4)\<close>

text \<open>
  C4. For a Store with unique plain slugs, every category gets its page, whatever ids
  its \<open>post_ids\<close> holds: the build is a total function, so no id makes it fail. The
  people shown are those the ids resolve to: their ids are the ids of \<open>post_ids\<close> that
  some record carries, in the order of \<open>post_ids\<close>, and ids without a record leave
  nothing behind. When the category template has the \<open>GALLERY_CARDS\<close> placeholder, the
  page contains the cards of the people shown, joined by the loop separator, where the
  card of a person is the markup below with the person's id, slug, thumbnail, name and
  title in it.
\<close>

theorem dangling_ids_are_dropped:
  fixes s :: site and cat :: category
  defines "page \<equiv> categoryHtml (site_templates s) (site_people s) (site_categories s) cat"
    and "shown \<equiv> catPeople (site_people s) cat"
    and "cardOf \<equiv> \<lambda>p.
        ''  <div id='' @ quoted (''post-'' @ show_nat (post_id p)) @ '' class=''
          @ quoted ''techie-gallery col-lg-3 col-md-4 col-sm-6'' @ ''>'' @ [nl]
        @ ''    <a class='' @ quoted ''techie-thumbnail'' @ '' href=''
          @ quoted (''/'' @ slug p @ ''/'') @ ''>'' @ [nl]
        @ ''      <img src='' @ quoted (''/d1lhy388c2xgxf/thumbnails/'' @ thumbnail p)
          @ '' width='' @ quoted ''280px'' @ '' height='' @ quoted ''390px'' @ ''>'' @ [nl]
        @ ''      <p class='' @ quoted ''name'' @ ''>'' @ name p @ ''</p>'' @ [nl]
        @ ''      <p class='' @ quoted ''title'' @ ''>'' @ title p @ ''&nbsp;</p>'' @ [nl]
        @ ''    </a>'' @ [nl]
        @ ''  </div>''"
  assumes "store_ok s" and "cat \<in> set (site_categories s)"
    and "str_includes (categoryTemplate (site_templates s)) ''{{GALLERY_CARDS}}''"
  shows "readFile (build s old) (categoryPath cat) = Some page
         \<and> map post_id shown = filter (\<lambda>i. i \<in> post_id ` set (site_people s)) (post_ids cat)
         \<and> set shown \<subseteq> set (site_people s)
         \<and> str_includes page
              (join_str ([nl, nl] @ ''<!-- end loop -->'' @ [nl]) (map cardOf shown))
         \<and> (\<forall>p\<in>set shown. str_includes page (cardOf p))"
proof -
  let ?T = "site_templates s" and ?P = "site_people s" and ?C = "site_categories s"
  have card: "cardOf = categoryCard"
    unfolding cardOf_def by (rule ext) (simp only: categoryCard_text)
  have "distinct (map cat_slug ?C)"
    using assms(4) by (simp add: store_ok_def)
  then have written: "readFile (build s old) (categoryPath cat) = Some page"
    unfolding page_def using assms(5) by (rule readFile_build_category)
  have ids: "map post_id shown = filter (\<lambda>i. i \<in> post_id ` set ?P) (post_ids cat)"
    unfolding shown_def by (rule map_post_id_catPeople)
  have known: "set shown \<subseteq> set ?P"
    unfolding shown_def using peopleByPostId_Some by (fastforce simp: set_catPeople)
  have fragment: "str_includes page (cardsHtml ?P cat)"
    unfolding page_def using assms(6) by (rule categoryHtml_cards)
  then have joined: "str_includes page
                       (join_str ([nl, nl] @ ''<!-- end loop -->'' @ [nl]) (map cardOf shown))"
    by (simp add: cardsHtml_def card shown_def)
  have each: "str_includes page (cardOf p)" if "p \<in> set shown" for p
  proof -
    have "str_includes (cardsHtml ?P cat) (cardOf p)"
      using that by (simp add: cardsHtml_def str_includes_def sublist_join card shown_def)
    with fragment show ?thesis
      by (rule str_includes_trans)
  qed
  from written ids known joined each show ?thesis
    by blast
qed

text \<open>
  The scenario: the page of \<open>frontend\<close> (ids 42 and 99) is the head, the two list
  items and the one card of Ada; nothing in it names id 99.
\<close>

theorem dangling_ids_are_dropped_witness:
  "store_ok scenario_site \<and> frontend \<in> set (site_categories scenario_site)
   \<and> str_includes (categoryTemplate (site_templates scenario_site)) ''{{GALLERY_CARDS}}''
   \<and> post_ids frontend = [42, 99]
   \<and> map post_id (catPeople [ada] frontend) = [42]
   \<and> readFile (build scenario_site []) (categoryPath frontend)
       = Some (''<head></head><li id=backend class='' @ [CHR 0x27] @ ''cat-item''
               @ [CHR 0x27] @ ''><a href='' @ [CHR 0x27] @ ''/category/backend/''
               @ [CHR 0x27] @ ''>Backend</a></li><li id=frontend class='' @ [CHR 0x27]
               @ ''cat-item'' @ [CHR 0x27] @ ''><a href='' @ [CHR 0x27]
               @ ''/category/frontend/'' @ [CHR 0x27] @ ''>Frontend</a></li>  <div id=''
               @ [CHR 0x22] @ ''post-42'' @ [CHR 0x22] @ '' class='' @ [CHR 0x22]
               @ ''techie-gallery col-lg-3 col-md-4 col-sm-6'' @ [CHR 0x22] @ ''>''
               @ [CHR 0x0A] @ ''    <a class='' @ [CHR 0x22] @ ''techie-thumbnail''
               @ [CHR 0x22] @ '' href='' @ [CHR 0x22] @ ''/ada/'' @ [CHR 0x22] @ ''>''
               @ [CHR 0x0A] @ ''      <img src='' @ [CHR 0x22]
               @ ''/d1lhy388c2xgxf/thumbnails/ada-280.jpg'' @ [CHR 0x22] @ '' width=''
               @ [CHR 0x22] @ ''280px'' @ [CHR 0x22] @ '' height='' @ [CHR 0x22] @ ''390px''
               @ [CHR 0x22] @ ''>'' @ [CHR 0x0A] @ ''      <p class='' @ [CHR 0x22]
               @ ''name'' @ [CHR 0x22] @ ''>Ada</p>'' @ [CHR 0x0A] @ ''      <p class=''
               @ [CHR 0x22] @ ''title'' @ [CHR 0x22] @ ''>Engineer&nbsp;</p>'' @ [CHR 0x0A]
               @ ''    </a>'' @ [CHR 0x0A] @ ''  </div>'')
   \<and> \<not> str_includes (categoryHtml scenario_templates [ada] [backend, frontend] frontend)
         ''post-99''"
proof -
  let ?page = "categoryHtml scenario_templates [ada] [backend, frontend] frontend"
  have site: "site_templates scenario_site = scenario_templates"
    "site_people scenario_site = [ada]" "site_categories scenario_site = [backend, frontend]"
    by (simp_all add: scenario_site_def)
  have mem: "frontend \<in> set (site_categories scenario_site)"
    by (simp add: site)
  have tpl: "str_includes (categoryTemplate (site_templates scenario_site)) ''{{GALLERY_CARDS}}''"
    by (simp only: site) code_simp
  have page: "?page
       = ''<head></head><li id=backend class='' @ [CHR 0x27] @ ''cat-item''
               @ [CHR 0x27] @ ''><a href='' @ [CHR 0x27] @ ''/category/backend/''
               @ [CHR 0x27] @ ''>Backend</a></li><li id=frontend class='' @ [CHR 0x27]
               @ ''cat-item'' @ [CHR 0x27] @ ''><a href='' @ [CHR 0x27]
               @ ''/category/frontend/'' @ [CHR 0x27] @ ''>Frontend</a></li>  <div id=''
               @ [CHR 0x22] @ ''post-42'' @ [CHR 0x22] @ '' class='' @ [CHR 0x22]
               @ ''techie-gallery col-lg-3 col-md-4 col-sm-6'' @ [CHR 0x22] @ ''>''
               @ [CHR 0x0A] @ ''    <a class='' @ [CHR 0x22] @ ''techie-thumbnail''
               @ [CHR 0x22] @ '' href='' @ [CHR 0x22] @ ''/ada/'' @ [CHR 0x22] @ ''>''
               @ [CHR 0x0A] @ ''      <img src='' @ [CHR 0x22]
               @ ''/d1lhy388c2xgxf/thumbnails/ada-280.jpg'' @ [CHR 0x22] @ '' width=''
               @ [CHR 0x22] @ ''280px'' @ [CHR 0x22] @ '' height='' @ [CHR 0x22] @ ''390px''
               @ [CHR 0x22] @ ''>'' @ [CHR 0x0A] @ ''      <p class='' @ [CHR 0x22]
               @ ''name'' @ [CHR 0x22] @ ''>Ada</p>'' @ [CHR 0x0A] @ ''      <p class=''
               @ [CHR 0x22] @ ''title'' @ [CHR 0x22] @ ''>Engineer&nbsp;</p>'' @ [CHR 0x0A]
               @ ''    </a>'' @ [CHR 0x0A] @ ''  </div>''"
    by code_simp
  have none: "\<not> str_includes ?page ''post-99''"
    by code_simp
  have ids: "post_ids frontend = [42, 99]"
    by (simp add: frontend_def)
  have "readFile (build scenario_site []) (categoryPath frontend) = Some ?page"
    and "map post_id (catPeople [ada] frontend) = [42]"
    using dangling_ids_are_dropped[OF store_ok_scenario mem tpl, of "[]"]
    by (simp_all add: site ids ada_def)
  then show ?thesis
    using store_ok_scenario mem tpl ids none by (simp only: page) simp
qed
section \<open>A person page carries the record's fields (C5)\<close>




section \<open>The build starts from an empty output tree (C6)\<close>


section \<open>The numeric identifier falls back to the listing (C7)\<close>

text \<open>
  C7. The People collection has one record for each listing entry whose page exists, in
  listing order. Its \<open>post_id\<close> is the identifier read from the page when that is not
  zero, and the listing entry's identifier when the page yields zero.
\<close>

theorem post_id_falls_back_to_listing:
  "map post_id (fst (extractPeople pf fs entries)) =
     concat (map (\<lambda>e. case fs (filePath (entry_slug e)) of
                         None \<Rightarrow> []
                       | Some html \<Rightarrow>
                           [if pagePostId html = 0 then entry_post_id e else pagePostId html])
              entries)"
proof -
  let ?one = "\<lambda>e. case fs (filePath (entry_slug e)) of
                     None \<Rightarrow> []
                   | Some html \<Rightarrow>
                       [mergeEntry (titleBySlug entries) e
                          ((pf html)\<lparr>slug := entry_slug e, post_id := pagePostId html\<rparr>)]"
  have "fst (extractPeople pf fs entries) = concat (map ?one entries)"
    by (simp add: extractPeople_def extract_fold)
  then have "map post_id (fst (extractPeople pf fs entries))
               = concat (map (\<lambda>e. map post_id (?one e)) entries)"
    by (simp add: map_concat comp_def)
  also have "\<dots> = concat (map (\<lambda>e. case fs (filePath (entry_slug e)) of
                         None \<Rightarrow> []
                       | Some html \<Rightarrow>
                           [if pagePostId html = 0 then entry_post_id e else pagePostId html])
              entries)"
    by (rule arg_cong[where f = concat], rule map_cong)
       (auto simp: post_id_mergeEntry split: option.splits)
  finally show ?thesis .
qed

theorem post_id_falls_back_to_listing_witness:
  "map post_id (fst (extractPeople (\<lambda>html. ada) source_files listing)) = [7, 44]"
proof -
  have "pagePostId ada_page = 7" and "pagePostId cy_page = 0"
    by code_simp+
  then show ?thesis
    using post_id_falls_back_to_listing[of "\<lambda>html. ada" source_files listing]
    by (simp add: listing_def source_files_def filePath_def)
qed

section \<open>A missing person page is skipped with a warning (C8)\<close>

text \<open>
  C8. The extraction loop runs through the whole listing whatever pages are missing. The
  slugs of the People collection are the listed slugs whose page exists, in listing
  order; one warning is logged for each entry whose page is missing; and the slug of a
  missing page is not in the collection.
\<close>

theorem missing_page_is_skipped:
  "map slug (fst (extractPeople pf fs entries))
     = filter (\<lambda>sl. fs (filePath sl) \<noteq> None) (map entry_slug entries)
   \<and> length (snd (extractPeople pf fs entries))
     = length (filter (\<lambda>e. fs (filePath (entry_slug e)) = None) entries)
   \<and> (fs (filePath sl) = None \<longrightarrow> sl \<notin> slug ` set (fst (extractPeople pf fs entries)))"
proof -
  let ?titles = "titleBySlug entries"
  let ?one = "\<lambda>e. case fs (filePath (entry_slug e)) of
                     None \<Rightarrow> []
                   | Some html \<Rightarrow>
                       [mergeEntry ?titles e
                          ((pf html)\<lparr>slug := entry_slug e, post_id := pagePostId html\<rparr>)]"
  let ?warn = "\<lambda>e. case fs (filePath (entry_slug e)) of
                      None \<Rightarrow> [''  WARNING: '' @ filePath (entry_slug e) @ '' not found, skipping'']
                    | Some html \<Rightarrow> []"
  have people: "fst (extractPeople pf fs entries) = concat (map ?one entries)"
    and log: "snd (extractPeople pf fs entries) = concat (map ?warn entries)"
    by (simp_all add: extractPeople_def extract_fold)
  have slugs: "map slug (concat (map ?one es))
                 = filter (\<lambda>sl. fs (filePath sl) \<noteq> None) (map entry_slug es)" for es
    by (induction es) (auto simp: slug_mergeEntry split: option.splits)
  have warned: "length (concat (map ?warn es))
                 = length (filter (\<lambda>e. fs (filePath (entry_slug e)) = None) es)" for es
    by (induction es) (auto split: option.splits)
  have first: "map slug (fst (extractPeople pf fs entries))
     = filter (\<lambda>sl. fs (filePath sl) \<noteq> None) (map entry_slug entries)"
    by (simp only: people slugs)
  moreover have "length (snd (extractPeople pf fs entries))
     = length (filter (\<lambda>e. fs (filePath (entry_slug e)) = None) entries)"
    by (simp only: log warned)
  moreover have "fs (filePath sl) = None \<longrightarrow> sl \<notin> slug ` set (fst (extractPeople pf fs entries))"
  proof
    assume missing: "fs (filePath sl) = None"
    have "slug ` set (fst (extractPeople pf fs entries))
            = set (map slug (fst (extractPeople pf fs entries)))"
      by simp
    also have "\<dots> = set (filter (\<lambda>sl. fs (filePath sl) \<noteq> None) (map entry_slug entries))"
      by (simp only: first)
    finally show "sl \<notin> slug ` set (fst (extractPeople pf fs entries))"
      using missing by auto
  qed
  ultimately show ?thesis
    by blast
qed


theorem missing_page_is_skipped_witness:
  "source_files (filePath ''bob'') = None
   \<and> map slug (fst (extractPeople (\<lambda>html. ada) source_files listing)) = [''ada'', ''cy'']
   \<and> length (snd (extractPeople (\<lambda>html. ada) source_files listing)) = 1
   \<and> ''bob'' \<notin> slug ` set (fst (extractPeople (\<lambda>html. ada) source_files listing))"
proof -
  have missing: "source_files (filePath ''bob'') = None"
    by (simp add: source_files_def filePath_def)
  show ?thesis
    using missing missing_page_is_skipped[of "\<lambda>html. ada" source_files listing "''bob''"]
    by (simp add: listing_def source_files_def filePath_def)
qed

section \<open>The extraction helpers return the empty string on a miss (C9)\<close>

lemma index_from_absent: "(index_from pat s i = - 1) = (\<not> sublist pat s)"
proof (induction s arbitrary: i)
  case Nil
  then show ?case by simp
next
  case (Cons c cs)
  show ?case
  proof (cases "prefix pat (c # cs)")
    case True
    then show ?thesis by auto
  next
    case False
    then show ?thesis
      using Cons[of "Suc i"] by (simp add: sublist_Cons_right)
  qed
qed

lemma indexOf_zero: "indexOf html pat 0 = index_from pat html 0"
  by (simp add: indexOf_def)

lemma indexOf_absent:
  "0 \<le> k \<Longrightarrow> k \<le> int (length html) \<Longrightarrow>
   (indexOf html pat k = - 1) = (\<not> sublist pat (drop (nat k) html))"
  by (simp add: indexOf_def Let_def index_from_absent min_def max_def)

text \<open>
  C9. \<open>extractBetween\<close> and \<open>extractMatch\<close> are total functions of their string
  arguments. \<open>extractBetween\<close> returns the empty string when the start marker does
  not occur in the text, and when it occurs (first at index \<open>k\<close>) but the end marker
  does not occur behind it; \<open>extractMatch\<close> returns the empty string when the
  expression does not match.
\<close>

theorem extract_helpers_empty_when_absent:
  "(\<not> sublist startMarker html \<longrightarrow> extractBetween html startMarker endMarker = [])
   \<and> (\<forall>k. indexOf html startMarker 0 = int k
          \<longrightarrow> \<not> sublist endMarker (drop (k + length startMarker) html)
          \<longrightarrow> extractBetween html startMarker endMarker = [])
   \<and> (rx html = None \<longrightarrow> extractMatch html rx = [])"
proof (intro conjI impI allI)
  assume "\<not> sublist startMarker html"
  then have "indexOf html startMarker 0 = - 1"
    by (simp add: indexOf_zero index_from_absent)
  then show "extractBetween html startMarker endMarker = []"
    by (simp add: extractBetween_def)
next
  fix k
  assume found: "indexOf html startMarker 0 = int k"
    and absent: "\<not> sublist endMarker (drop (k + length startMarker) html)"
  let ?after = "int k + int (length startMarker)"
  have "indexOf html endMarker ?after = - 1"
  proof (cases "?after \<le> int (length html)")
    case True
    then show ?thesis
      using absent indexOf_absent[of ?after html endMarker] by (simp add: nat_add_distrib)
  next
    case False
    then have "drop (nat (min (max ?after 0) (int (length html)))) html = []"
      by (simp add: min_def max_def)
    moreover have "endMarker \<noteq> []"
      using absent by auto
    ultimately show ?thesis
      by (simp add: indexOf_def Let_def)
  qed
  then show "extractBetween html startMarker endMarker = []"
    using found by (simp add: extractBetween_def Let_def)
next
  assume "rx html = None"
  then show "extractMatch html rx = []"
    by (simp add: extractMatch_def)
qed

theorem extract_helpers_empty_when_absent_witness:
  "\<not> sublist ''<c>'' ''aa<b>xx</b>yy''
   \<and> extractBetween ''aa<b>xx</b>yy'' ''<c>'' ''</b>'' = []
   \<and> indexOf ''aa</b><b>xx'' ''<b>'' 0 = int 6
   \<and> \<not> sublist ''</b>'' (drop (6 + length ''<b>'') ''aa</b><b>xx'')
   \<and> extractBetween ''aa</b><b>xx'' ''<b>'' ''</b>'' = []
   \<and> shortlinkRegex ''no link here'' = None
   \<and> extractMatch ''no link here'' shortlinkRegex = []
   \<and> extractBetween ''aa<b>xx</b>yy'' ''<b>'' ''</b>'' = ''xx''"
proof -
  have a: "\<not> sublist ''<c>'' ''aa<b>xx</b>yy''"
    by code_simp
  have b: "indexOf ''aa</b><b>xx'' ''<b>'' 0 = int 6"
    by code_simp
  have c: "\<not> sublist ''</b>'' (drop (6 + length ''<b>'') ''aa</b><b>xx'')"
    by code_simp
  have d: "shortlinkRegex ''no link here'' = None"
    by code_simp
  have e: "extractBetween ''aa<b>xx</b>yy'' ''<b>'' ''</b>'' = ''xx''"
    by code_simp
  show ?thesis
    using a b c d e
      extract_helpers_empty_when_absent[of "''<c>''" "''aa<b>xx</b>yy''" "''</b>''" shortlinkRegex]
      extract_helpers_empty_when_absent[of "''<b>''" "''aa</b><b>xx''" "''</b>''" shortlinkRegex]
      extract_helpers_empty_when_absent[of "''<b>''" "''no link here''" "''</b>''" shortlinkRegex]
    by blast
qed


section \<open>Records that share a post id (C10)\<close>

text \<open>
  C10. When two records of the Store have the same \<open>post_id\<close>, and no record after
  the second has it, the lookup maps the id to the second record. Every person a
  category page draws for that id is then the second record: the card shown for the id
  is the markup below with the second record's slug, thumbnail, name and title in it. A
  category that lists the id has that card among its cards, and its page contains it
  when the category template has the \<open>GALLERY_CARDS\<close> placeholder.
\<close>

theorem last_record_wins:
  fixes p1 p2 :: person
  defines "card2 \<equiv>
          ''  <div id='' @ quoted (''post-'' @ show_nat (post_id p1)) @ '' class=''
            @ quoted ''techie-gallery col-lg-3 col-md-4 col-sm-6'' @ ''>'' @ [nl]
          @ ''    <a class='' @ quoted ''techie-thumbnail'' @ '' href=''
            @ quoted (''/'' @ slug p2 @ ''/'') @ ''>'' @ [nl]
          @ ''      <img src='' @ quoted (''/d1lhy388c2xgxf/thumbnails/'' @ thumbnail p2)
            @ '' width='' @ quoted ''280px'' @ '' height='' @ quoted ''390px'' @ ''>'' @ [nl]
          @ ''      <p class='' @ quoted ''name'' @ ''>'' @ name p2 @ ''</p>'' @ [nl]
          @ ''      <p class='' @ quoted ''title'' @ ''>'' @ title p2 @ ''&nbsp;</p>'' @ [nl]
          @ ''    </a>'' @ [nl]
          @ ''  </div>''"
  assumes "people = xs @ p1 # ys @ p2 # zs"
    and "post_id p1 = post_id p2"
    and "\<forall>q\<in>set zs. post_id q \<noteq> post_id p2"
  shows "peopleByPostId people (post_id p1) = Some p2
         \<and> (\<forall>p\<in>set (catPeople people cat). post_id p = post_id p1 \<longrightarrow> p = p2)
         \<and> cardsHtml people (cat\<lparr>post_ids := [post_id p1]\<rparr>) = card2
         \<and> (post_id p1 \<in> set (post_ids cat) \<longrightarrow>
               p2 \<in> set (catPeople people cat)
               \<and> str_includes (cardsHtml people cat) card2
               \<and> (str_includes (categoryTemplate T) ''{{GALLERY_CARDS}}'' \<longrightarrow>
                    str_includes (categoryHtml T people categories cat) card2))"
proof -
  have card2: "card2 = categoryCard p2"
    unfolding card2_def categoryCard_text by (simp add: assms(3))
  have "people = (xs @ p1 # ys) @ p2 # zs"
    by (simp add: assms(2))
  then have lookup: "peopleByPostId people (post_id p1) = Some p2"
    using peopleByPostId_last[of people "xs @ p1 # ys" p2 zs] assms(3,4) by simp
  have only: "\<forall>p\<in>set (catPeople people cat). post_id p = post_id p1 \<longrightarrow> p = p2"
  proof (intro ballI impI)
    fix p
    assume "p \<in> set (catPeople people cat)" and same: "post_id p = post_id p1"
    then obtain i where "peopleByPostId people i = Some p"
      by (auto simp: set_catPeople)
    moreover from this have "i = post_id p1"
      using peopleByPostId_Some same by fastforce
    ultimately show "p = p2"
      using lookup by simp
  qed
  have "catPeople people (cat\<lparr>post_ids := [post_id p1]\<rparr>) = [p2]"
    using lookup by (simp add: catPeople_def)
  then have alone: "cardsHtml people (cat\<lparr>post_ids := [post_id p1]\<rparr>) = card2"
    by (simp add: cardsHtml_def card2)
  have listed: "p2 \<in> set (catPeople people cat)
                \<and> str_includes (cardsHtml people cat) card2
                \<and> (str_includes (categoryTemplate T) ''{{GALLERY_CARDS}}'' \<longrightarrow>
                     str_includes (categoryHtml T people categories cat) card2)"
    if "post_id p1 \<in> set (post_ids cat)"
  proof -
    have present: "p2 \<in> set (catPeople people cat)"
      using lookup that by (auto simp: set_catPeople)
    then have among: "str_includes (cardsHtml people cat) card2"
      by (simp add: cardsHtml_def str_includes_def sublist_join card2)
    have "str_includes (categoryHtml T people categories cat) card2"
      if "str_includes (categoryTemplate T) ''{{GALLERY_CARDS}}''"
      using categoryHtml_cards[OF that] among by (rule str_includes_trans)
    with present among show ?thesis
      by blast
  qed
  from lookup only alone listed show ?thesis
    by blast
qed

text \<open>
  Ada and a second record with her id: the one card of \<open>backend\<close> carries the second
  record's slug, thumbnail, name and title, and nothing of Ada's; with Ada alone the
  card is hers.
\<close>

theorem last_record_wins_witness:
  "[ada, ada_twin] = [] @ ada # [] @ ada_twin # [] \<and> post_id ada = post_id ada_twin
   \<and> post_ids backend = [42]
   \<and> str_includes (categoryTemplate scenario_templates) ''{{GALLERY_CARDS}}''
   \<and> peopleByPostId [ada, ada_twin] 42 = Some ada_twin
   \<and> cardsHtml [ada, ada_twin] backend
       = ''  <div id='' @ [CHR 0x22] @ ''post-42'' @ [CHR 0x22] @ '' class='' @ [CHR 0x22]
           @ ''techie-gallery col-lg-3 col-md-4 col-sm-6'' @ [CHR 0x22] @ ''>'' @ [CHR 0x0A]
           @ ''    <a class='' @ [CHR 0x22] @ ''techie-thumbnail'' @ [CHR 0x22] @ '' href=''
           @ [CHR 0x22] @ ''/ada-2/'' @ [CHR 0x22] @ ''>'' @ [CHR 0x0A]
           @ ''      <img src='' @ [CHR 0x22] @ ''/d1lhy388c2xgxf/thumbnails/ada2.jpg''
           @ [CHR 0x22] @ '' width='' @ [CHR 0x22] @ ''280px'' @ [CHR 0x22] @ '' height=''
           @ [CHR 0x22] @ ''390px'' @ [CHR 0x22] @ ''>'' @ [CHR 0x0A] @ ''      <p class=''
           @ [CHR 0x22] @ ''name'' @ [CHR 0x22] @ ''>Ada II</p>'' @ [CHR 0x0A]
           @ ''      <p class='' @ [CHR 0x22] @ ''title'' @ [CHR 0x22] @ ''>CTO&nbsp;</p>''
           @ [CHR 0x0A] @ ''    </a>'' @ [CHR 0x0A] @ ''  </div>''
   \<and> cardsHtml [ada] backend
       = ''  <div id='' @ [CHR 0x22] @ ''post-42'' @ [CHR 0x22] @ '' class='' @ [CHR 0x22]
           @ ''techie-gallery col-lg-3 col-md-4 col-sm-6'' @ [CHR 0x22] @ ''>'' @ [CHR 0x0A]
           @ ''    <a class='' @ [CHR 0x22] @ ''techie-thumbnail'' @ [CHR 0x22] @ '' href=''
           @ [CHR 0x22] @ ''/ada/'' @ [CHR 0x22] @ ''>'' @ [CHR 0x0A] @ ''      <img src=''
           @ [CHR 0x22] @ ''/d1lhy388c2xgxf/thumbnails/ada-280.jpg'' @ [CHR 0x22]
           @ '' width='' @ [CHR 0x22] @ ''280px'' @ [CHR 0x22] @ '' height='' @ [CHR 0x22]
           @ ''390px'' @ [CHR 0x22] @ ''>'' @ [CHR 0x0A] @ ''      <p class='' @ [CHR 0x22]
           @ ''name'' @ [CHR 0x22] @ ''>Ada</p>'' @ [CHR 0x0A] @ ''      <p class=''
           @ [CHR 0x22] @ ''title'' @ [CHR 0x22] @ ''>Engineer&nbsp;</p>'' @ [CHR 0x0A]
           @ ''    </a>'' @ [CHR 0x0A] @ ''  </div>''
   \<and> categoryHtml scenario_templates [ada, ada_twin] [backend] backend
       = ''<head></head><li id=backend class='' @ [CHR 0x27] @ ''cat-item'' @ [CHR 0x27]
           @ ''><a href='' @ [CHR 0x27] @ ''/category/backend/'' @ [CHR 0x27]
           @ ''>Backend</a></li>  <div id='' @ [CHR 0x22] @ ''post-42'' @ [CHR 0x22]
           @ '' class='' @ [CHR 0x22] @ ''techie-gallery col-lg-3 col-md-4 col-sm-6''
           @ [CHR 0x22] @ ''>'' @ [CHR 0x0A] @ ''    <a class='' @ [CHR 0x22]
           @ ''techie-thumbnail'' @ [CHR 0x22] @ '' href='' @ [CHR 0x22] @ ''/ada-2/''
           @ [CHR 0x22] @ ''>'' @ [CHR 0x0A] @ ''      <img src='' @ [CHR 0x22]
           @ ''/d1lhy388c2xgxf/thumbnails/ada2.jpg'' @ [CHR 0x22] @ '' width='' @ [CHR 0x22]
           @ ''280px'' @ [CHR 0x22] @ '' height='' @ [CHR 0x22] @ ''390px'' @ [CHR 0x22]
           @ ''>'' @ [CHR 0x0A] @ ''      <p class='' @ [CHR 0x22] @ ''name'' @ [CHR 0x22]
           @ ''>Ada II</p>'' @ [CHR 0x0A] @ ''      <p class='' @ [CHR 0x22] @ ''title''
           @ [CHR 0x22] @ ''>CTO&nbsp;</p>'' @ [CHR 0x0A] @ ''    </a>'' @ [CHR 0x0A]
           @ ''  </div>''"
proof -
  have people: "[ada, ada_twin] = [] @ ada # [] @ ada_twin # []"
    by simp
  have same: "post_id ada = post_id ada_twin"
    by (simp add: ada_twin_def)
  have none: "\<forall>q\<in>set []. post_id q \<noteq> post_id ada_twin"
    by simp
  have id: "post_id ada = 42"
    by (simp add: ada_def)
  have ids: "post_ids backend = [42]"
    by (simp add: backend_def)
  have one: "backend\<lparr>post_ids := [42]\<rparr> = backend"
    by (simp add: backend_def)
  have tpl: "str_includes (categoryTemplate scenario_templates) ''{{GALLERY_CARDS}}''"
    by code_simp
  have twin: "slug ada_twin = ''ada-2''" "thumbnail ada_twin = ''ada2.jpg''"
    "name ada_twin = ''Ada II''" "title ada_twin = ''CTO''"
    by (simp_all add: ada_twin_def)
  have digits: "show_nat 42 = ''42''"
    by code_simp
  have lookup: "peopleByPostId [ada, ada_twin] 42 = Some ada_twin"
    and twin_card: "cardsHtml [ada, ada_twin] backend
       = ''  <div id='' @ [CHR 0x22] @ ''post-42'' @ [CHR 0x22] @ '' class='' @ [CHR 0x22]
           @ ''techie-gallery col-lg-3 col-md-4 col-sm-6'' @ [CHR 0x22] @ ''>'' @ [CHR 0x0A]
           @ ''    <a class='' @ [CHR 0x22] @ ''techie-thumbnail'' @ [CHR 0x22] @ '' href=''
           @ [CHR 0x22] @ ''/ada-2/'' @ [CHR 0x22] @ ''>'' @ [CHR 0x0A]
           @ ''      <img src='' @ [CHR 0x22] @ ''/d1lhy388c2xgxf/thumbnails/ada2.jpg''
           @ [CHR 0x22] @ '' width='' @ [CHR 0x22] @ ''280px'' @ [CHR 0x22] @ '' height=''
           @ [CHR 0x22] @ ''390px'' @ [CHR 0x22] @ ''>'' @ [CHR 0x0A] @ ''      <p class=''
           @ [CHR 0x22] @ ''name'' @ [CHR 0x22] @ ''>Ada II</p>'' @ [CHR 0x0A]
           @ ''      <p class='' @ [CHR 0x22] @ ''title'' @ [CHR 0x22] @ ''>CTO&nbsp;</p>''
           @ [CHR 0x0A] @ ''    </a>'' @ [CHR 0x0A] @ ''  </div>''"
    using last_record_wins[OF people same none, of backend scenario_templates "[backend]"]
    by (simp_all add: id one twin digits quoted_def dq_def nl_def)
  have ada_card: "cardsHtml [ada] backend
       = ''  <div id='' @ [CHR 0x22] @ ''post-42'' @ [CHR 0x22] @ '' class='' @ [CHR 0x22]
           @ ''techie-gallery col-lg-3 col-md-4 col-sm-6'' @ [CHR 0x22] @ ''>'' @ [CHR 0x0A]
           @ ''    <a class='' @ [CHR 0x22] @ ''techie-thumbnail'' @ [CHR 0x22] @ '' href=''
           @ [CHR 0x22] @ ''/ada/'' @ [CHR 0x22] @ ''>'' @ [CHR 0x0A] @ ''      <img src=''
           @ [CHR 0x22] @ ''/d1lhy388c2xgxf/thumbnails/ada-280.jpg'' @ [CHR 0x22]
           @ '' width='' @ [CHR 0x22] @ ''280px'' @ [CHR 0x22] @ '' height='' @ [CHR 0x22]
           @ ''390px'' @ [CHR 0x22] @ ''>'' @ [CHR 0x0A] @ ''      <p class='' @ [CHR 0x22]
           @ ''name'' @ [CHR 0x22] @ ''>Ada</p>'' @ [CHR 0x0A] @ ''      <p class=''
           @ [CHR 0x22] @ ''title'' @ [CHR 0x22] @ ''>Engineer&nbsp;</p>'' @ [CHR 0x0A]
           @ ''    </a>'' @ [CHR 0x0A] @ ''  </div>''"
    by code_simp
  have page: "categoryHtml scenario_templates [ada, ada_twin] [backend] backend
       = ''<head></head><li id=backend class='' @ [CHR 0x27] @ ''cat-item'' @ [CHR 0x27]
           @ ''><a href='' @ [CHR 0x27] @ ''/category/backend/'' @ [CHR 0x27]
           @ ''>Backend</a></li>  <div id='' @ [CHR 0x22] @ ''post-42'' @ [CHR 0x22]
           @ '' class='' @ [CHR 0x22] @ ''techie-gallery col-lg-3 col-md-4 col-sm-6''
           @ [CHR 0x22] @ ''>'' @ [CHR 0x0A] @ ''    <a class='' @ [CHR 0x22]
           @ ''techie-thumbnail'' @ [CHR 0x22] @ '' href='' @ [CHR 0x22] @ ''/ada-2/''
           @ [CHR 0x22] @ ''>'' @ [CHR 0x0A] @ ''      <img src='' @ [CHR 0x22]
           @ ''/d1lhy388c2xgxf/thumbnails/ada2.jpg'' @ [CHR 0x22] @ '' width='' @ [CHR 0x22]
           @ ''280px'' @ [CHR 0x22] @ '' height='' @ [CHR 0x22] @ ''390px'' @ [CHR 0x22]
           @ ''>'' @ [CHR 0x0A] @ ''      <p class='' @ [CHR 0x22] @ ''name'' @ [CHR 0x22]
           @ ''>Ada II</p>'' @ [CHR 0x0A] @ ''      <p class='' @ [CHR 0x22] @ ''title''
           @ [CHR 0x22] @ ''>CTO&nbsp;</p>'' @ [CHR 0x0A] @ ''    </a>'' @ [CHR 0x0A]
           @ ''  </div>''"
    by code_simp
  show ?thesis
    by (intro conjI) (rule people same ids tpl lookup twin_card ada_card page)+
qed
end
